theory Spec2Isabelle
  imports Main "HOL-Library.Word"
begin

unbundle bit_operations_syntax

section \<open>Packets\<close>

type_synonym byte = "8 word"
type_synonym bytes = "byte list"

text \<open>
  Modelled from the spec: the declaration of \<open>parser.Packet\<close> and of the packet type
  constants is not among the sources. A packet has a type, a payload and an option flag
  (spec section 3); the type constants are numbered in the order of the closed set
  \<open>{OPEN, CLOSE, PING, PONG, MESSAGE, UPGRADE, NOOP}\<close>, which agrees with the wire
  digits of the spec's scenarios (\<open>2\<close> PING, \<open>3\<close> PONG, \<open>4\<close> MESSAGE, \<open>5\<close> UPGRADE).
\<close>

record Packet =
  Type :: byte
  Data :: bytes
  Option :: byte

definition OPEN :: byte where "OPEN = 0"
definition CLOSE :: byte where "CLOSE = 1"
definition PING :: byte where "PING = 2"
definition PONG :: byte where "PONG = 3"
definition MESSAGE :: byte where "MESSAGE = 4"
definition UPGRADE :: byte where "UPGRADE = 5"
definition NOOP :: byte where "NOOP = 6"

text \<open>
  Modelled from the spec: \<open>parser.NewPacketCustom(type, data, option)\<close> is declared
  outside the sources; it builds the packet with exactly these three fields.
\<close>

definition NewPacketCustom :: "byte \<Rightarrow> bytes \<Rightarrow> byte \<Rightarrow> Packet" where
  "NewPacketCustom t d opt = \<lparr>Type = t, Data = d, Option = opt\<rparr>"

text \<open>
  Every error value and panic of the two source files. \<open>ErrAtoi\<close> is the error of
  \<open>strconv.Atoi\<close> on the given text (syntax or range), \<open>ErrCodec\<close> an error of the
  single-packet codec, \<open>ErrTransport\<close> an error a transport returned.
\<close>

datatype error =
    ErrSocketClosed string
  | ErrTransport string
  | ErrTransportsFull
  | ErrUnsupportedPacket byte
  | ErrEmptyPackets
  | ErrInvalidPayloadString
  | ErrAtoi bytes
  | ErrCodec string
  | Panic string

section \<open>The payload codec (parser/payload.go)\<close>

text \<open>
  The single-packet encoders and decoders (\<open>stringEncoder\<close>, \<open>base64Encoder\<close>) and the
  constant \<open>BINARY\<close> are declared outside the sources; the payload codec takes them as a
  parameter.
\<close>

record codec =
  BINARY :: byte
  stringEncode :: "Packet \<Rightarrow> error + bytes"
  stringDecode :: "bytes \<Rightarrow> error + Packet"
  base64Encode :: "Packet \<Rightarrow> error + bytes"
  base64Decode :: "bytes \<Rightarrow> error + Packet"

subsection \<open>Go's \<open>unicode/utf8\<close>\<close>

text \<open>
  \<open>utf8_first\<close> is the table \<open>first\<close> of the Go library together with \<open>acceptRanges\<close>:
  for a leading byte of a multi-byte sequence, the length of the sequence and the range
  accepted for the second byte; \<open>None\<close> for an ASCII byte and for a byte that starts no
  sequence. \<open>DecodeRune_size\<close> is the width returned by \<open>utf8.DecodeRune\<close> (the rune
  itself is discarded by the caller), and \<open>RuneCount\<close> is \<open>utf8.RuneCount\<close>: an invalid
  or short sequence counts as one rune of width 1.
\<close>

definition utf8_first :: "byte \<Rightarrow> (nat \<times> nat \<times> nat) option" where
  "utf8_first p0 =
     (let c = unat p0 in
      if c < 0xC2 then None
      else if c < 0xE0 then Some (2, 0x80, 0xBF)
      else if c = 0xE0 then Some (3, 0xA0, 0xBF)
      else if c < 0xED then Some (3, 0x80, 0xBF)
      else if c = 0xED then Some (3, 0x80, 0x9F)
      else if c < 0xF0 then Some (3, 0x80, 0xBF)
      else if c = 0xF0 then Some (4, 0x90, 0xBF)
      else if c < 0xF4 then Some (4, 0x80, 0xBF)
      else if c = 0xF4 then Some (4, 0x80, 0x8F)
      else None)"

definition DecodeRune_size :: "bytes \<Rightarrow> nat" where
  "DecodeRune_size p =
     (let n = length p in
      if n < 1 then 0
      else
        (case utf8_first (p ! 0) of
           None \<Rightarrow> 1
         | Some (sz, lo, hi) \<Rightarrow>
             if n < sz then 1
             else if unat (p ! 1) < lo \<or> hi < unat (p ! 1) then 1
             else if sz \<le> 2 then 2
             else if unat (p ! 2) < 0x80 \<or> 0xBF < unat (p ! 2) then 1
             else if sz \<le> 3 then 3
             else if unat (p ! 3) < 0x80 \<or> 0xBF < unat (p ! 3) then 1
             else 4))"

lemma utf8_first_size: "utf8_first b = Some (sz, lo, hi) \<Longrightarrow> 2 \<le> sz \<and> sz \<le> 4 \<and> 0x80 \<le> lo"
  by (auto simp: utf8_first_def Let_def split: if_splits)

lemma DecodeRune_size_pos: "p \<noteq> [] \<Longrightarrow> 0 < DecodeRune_size p"
  by (cases p) (auto simp: DecodeRune_size_def Let_def split: option.splits)

lemma DecodeRune_size_le: "DecodeRune_size p \<le> length p"
proof (cases p)
  case Nil
  then show ?thesis by (simp add: DecodeRune_size_def)
next
  case (Cons a q)
  show ?thesis
  proof (cases "utf8_first a")
    case None
    with Cons show ?thesis by (simp add: DecodeRune_size_def Let_def)
  next
    case (Some t)
    obtain sz lo hi where t: "t = (sz, lo, hi)" by (cases t)
    from Some t utf8_first_size have "2 \<le> sz" "sz \<le> 4" by blast+
    then show ?thesis using Some t Cons
      by (cases "length p < sz") (simp_all add: DecodeRune_size_def Let_def)
  qed
qed

function RuneCount :: "bytes \<Rightarrow> nat" where
  "RuneCount p = (if p = [] then 0 else 1 + RuneCount (drop (DecodeRune_size p) p))"
  by pat_completeness auto
termination
  by (relation "measure length") (auto simp: DecodeRune_size_pos)

declare RuneCount.simps [simp del]

subsection \<open>Reading a packet body\<close>

text \<open>
  \<open>readPacketString\<close> walks \<open>psize\<close> runes, or to the end of the input, whichever comes
  first; its error result is always \<open>nil\<close>.
\<close>

function readPacketString_loop :: "bytes \<Rightarrow> nat \<Rightarrow> int \<Rightarrow> nat" where
  "readPacketString_loop input i psize =
     (if i < length input \<and> psize > 0
      then readPacketString_loop input (i + DecodeRune_size (drop i input)) (psize - 1)
      else i)"
  by pat_completeness auto
termination
  by (relation "measure (\<lambda>(input, i, psize). nat psize)") auto

declare readPacketString_loop.simps [simp del]

definition readPacketString :: "bytes \<Rightarrow> int \<Rightarrow> bytes \<times> bytes \<times> error option" where
  "readPacketString input psize =
     (let i = readPacketString_loop input 0 psize in (take i input, drop i input, None))"

subsection \<open>Go's \<open>strconv.Atoi\<close> and \<open>fmt.Sprintf("%d")\<close>\<close>

text \<open>
  \<open>Atoi\<close> accepts an optional sign followed by at least one decimal digit and fails when
  the value does not fit Go's \<open>int\<close>, taken to be 64 bits wide.
\<close>

definition is_digit :: "byte \<Rightarrow> bool" where
  "is_digit c = (48 \<le> unat c \<and> unat c \<le> 57)"

definition digits_value :: "bytes \<Rightarrow> int" where
  "digits_value ds = foldl (\<lambda>n c. n * 10 + (uint c - 48)) 0 ds"

definition maxInt :: int where
  "maxInt = 9223372036854775807"

definition Atoi :: "bytes \<Rightarrow> error + int" where
  "Atoi s =
     (let neg = (s \<noteq> [] \<and> hd s = 0x2D);
          ds = (if s \<noteq> [] \<and> (hd s = 0x2D \<or> hd s = 0x2B) then tl s else s)
      in if ds = [] \<or> \<not> list_all is_digit ds then Inl (ErrAtoi s)
         else
           let un = digits_value ds
           in if (\<not> neg \<and> un > maxInt) \<or> (neg \<and> un > maxInt + 1) then Inl (ErrAtoi s)
              else Inr (if neg then - un else un))"

definition digit :: "nat \<Rightarrow> byte" where
  "digit k = 0x30 + of_nat k"

fun decimal :: "nat \<Rightarrow> bytes" where
  "decimal n =
     (if n < 10 then [digit n]
      else decimal (n div 10) @ [digit (n mod 10)])"

declare decimal.simps [simp del]

definition Sprintf_d :: "int \<Rightarrow> bytes" where
  "Sprintf_d n = (if n < 0 then 0x2D # decimal (nat (- n)) else decimal (nat n))"

subsection \<open>Reading a length prefix\<close>

text \<open>
  \<open>readPacketLength\<close> looks for the first colon and converts what precedes it; on a
  failure it returns the size 0, a \<open>nil\<close> rest and the error.
\<close>

function readPacketLength_loop :: "bytes \<Rightarrow> nat \<Rightarrow> int \<times> bytes \<times> error option" where
  "readPacketLength_loop input i =
     (if i < length input then
        (if input ! i \<noteq> 0x3A then readPacketLength_loop input (i + 1)
         else
           (case Atoi (take i input) of
              Inl err \<Rightarrow> (0, [], Some err)
            | Inr psize \<Rightarrow> (psize, drop (i + 1) input, None)))
      else (0, [], Some ErrInvalidPayloadString))"
  by pat_completeness auto
termination
  by (relation "measure (\<lambda>(input, i). length input - i)") auto

declare readPacketLength_loop.simps [simp del]

definition readPacketLength :: "bytes \<Rightarrow> int \<times> bytes \<times> error option" where
  "readPacketLength input = readPacketLength_loop input 0"

definition readPacket :: "codec \<Rightarrow> bytes \<Rightarrow> error + Packet" where
  "readPacket c input =
     (if input = [] then Inl (Panic ''index out of range'')
      else if input ! 0 \<noteq> 0x62 then stringDecode c input
      else base64Decode c input)"

lemma readPacketLength_loop_shorter:
  "input \<noteq> [] \<Longrightarrow> length (fst (snd (readPacketLength_loop input i))) < length input"
proof (induction input i rule: readPacketLength_loop.induct)
  case (1 input i)
  then show ?case
    by (subst readPacketLength_loop.simps) (auto split: sum.splits)
qed

lemma readPacketString_loop_step:
  "i < length input \<Longrightarrow> 0 < psize \<Longrightarrow>
   readPacketString_loop input i psize
     = readPacketString_loop input (i + DecodeRune_size (drop i input)) (psize - 1)"
  by (subst readPacketString_loop.simps) simp

lemma readPacketString_loop_stop:
  "\<not> (i < length input \<and> 0 < psize) \<Longrightarrow> readPacketString_loop input i psize = i"
  by (subst readPacketString_loop.simps) auto

lemma readPacketString_loop_mono: "i \<le> readPacketString_loop input i psize"
proof (induction input i psize rule: readPacketString_loop.induct)
  case (1 input i psize)
  show ?case
  proof (cases "i < length input \<and> psize > 0")
    case True
    with 1 have "i + DecodeRune_size (drop i input)
        \<le> readPacketString_loop input (i + DecodeRune_size (drop i input)) (psize - 1)"
      by simp
    with True show ?thesis by (simp add: readPacketString_loop_step)
  next
    case False
    then show ?thesis by (simp add: readPacketString_loop_stop)
  qed
qed

lemma readPacketString_loop_pos:
  assumes "i < length input" and "0 < psize"
  shows "i < readPacketString_loop input i psize"
proof -
  have "0 < DecodeRune_size (drop i input)"
    using assms by (simp add: DecodeRune_size_pos)
  moreover have "i + DecodeRune_size (drop i input)
      \<le> readPacketString_loop input (i + DecodeRune_size (drop i input)) (psize - 1)"
    by (rule readPacketString_loop_mono)
  ultimately show ?thesis
    using assms by (simp add: readPacketString_loop_step)
qed

lemma readPacketString_loop_le:
  "i \<le> length input \<Longrightarrow> readPacketString_loop input i psize \<le> length input"
proof (induction input i psize rule: readPacketString_loop.induct)
  case (1 input i psize)
  show ?case
  proof (cases "i < length input \<and> psize > 0")
    case True
    have "DecodeRune_size (drop i input) \<le> length (drop i input)"
      by (rule DecodeRune_size_le)
    with True have "i + DecodeRune_size (drop i input) \<le> length input" by auto
    with 1 True show ?thesis
      by (simp add: readPacketString_loop_step)
  next
    case False
    with 1 show ?thesis by (simp add: readPacketString_loop_stop)
  qed
qed

subsection \<open>Decoding a payload\<close>

text \<open>
  \<open>Decode\<close> returns Go's pair of a slice and an error: \<open>(Some packets, err)\<close> at the end
  of the loop, with the error of the last read still in \<open>err\<close>, and \<open>(None, Some e)\<close> where
  the source returns \<open>nil, err\<close>. \<open>readPacket\<close> indexes its input at 0 and panics when it is
  empty.
\<close>

lemma readPacketLength_shorter:
  assumes "0 < length rest" and "(x, y) = readPacketLength rest" and "(xa, ya) = y"
  shows "length xa < length rest"
proof -
  from assms have "xa = fst (snd (readPacketLength_loop rest 0))"
    by (metis fst_conv snd_conv readPacketLength_def)
  with assms(1) readPacketLength_loop_shorter [of rest 0] show ?thesis by simp
qed

lemma readPacket_nonempty: "readPacket c x = Inr b \<Longrightarrow> x \<noteq> []"
  by (auto simp: readPacket_def)

lemma readPacketString_shorter:
  assumes "0 < length rest" and "(x, y) = readPacketString rest psize" and "(xa, ya) = y"
    and "x \<noteq> []"
  shows "length xa < length rest"
proof -
  from assms have x: "x = take (readPacketString_loop rest 0 psize) rest"
    and xa: "xa = drop (readPacketString_loop rest 0 psize) rest"
    by (auto simp: readPacketString_def Let_def)
  from x assms(4) have "0 < readPacketString_loop rest 0 psize"
    by (cases "readPacketString_loop rest 0 psize") auto
  with assms(1) xa show ?thesis by simp
qed

function Decode_loop ::
  "codec \<Rightarrow> int \<Rightarrow> error option \<Rightarrow> bytes \<Rightarrow> Packet list \<Rightarrow> Packet list option \<times> error option" where
  "Decode_loop c psize err rest packets =
     (if length rest > 0 then
        (if psize = 0 then
           (case readPacketLength rest of
              (psize', rest', err') \<Rightarrow> Decode_loop c psize' err' rest' packets)
         else
           (case readPacketString rest psize of
              (content, rest', err') \<Rightarrow>
                (case readPacket c content of
                   Inl err'' \<Rightarrow> (None, Some err'')
                 | Inr packet \<Rightarrow> Decode_loop c 0 None rest' (packets @ [packet]))))
      else (Some packets, err))"
  by pat_completeness auto
termination
  apply (relation "measure (\<lambda>(c, psize, err, rest, packets). length rest)")
    apply simp
   apply (simp add: readPacketLength_shorter)
  apply (simp add: readPacketString_shorter readPacket_nonempty)
  done

declare Decode_loop.simps [simp del]

definition Decode :: "codec \<Rightarrow> bytes \<Rightarrow> Packet list option \<times> error option" where
  "Decode c input = Decode_loop c 0 None input []"

subsection \<open>Encoding a payload\<close>

text \<open>Writes to a \<open>bytes.Buffer\<close> return no error; the buffer is the byte list.\<close>

definition writePacket :: "codec \<Rightarrow> bytes \<Rightarrow> Packet \<Rightarrow> error + bytes" where
  "writePacket c bf packet =
     (if Option packet AND BINARY c \<noteq> BINARY c then
        (case stringEncode c packet of
           Inl err \<Rightarrow> Inl err
         | Inr data \<Rightarrow> Inr (bf @ Sprintf_d (int (RuneCount data)) @ [0x3A] @ data))
      else
        (case base64Encode c packet of
           Inl err \<Rightarrow> Inl err
         | Inr data \<Rightarrow> Inr (bf @ Sprintf_d (int (length data)) @ [0x3A] @ data)))"

fun Encode_loop :: "codec \<Rightarrow> bytes \<Rightarrow> Packet list \<Rightarrow> error + bytes" where
  "Encode_loop c bf [] = Inr bf"
| "Encode_loop c bf (it # packets) =
     (case writePacket c bf it of
        Inl err \<Rightarrow> Inl err
      | Inr bf' \<Rightarrow> Encode_loop c bf' packets)"

definition Encode :: "codec \<Rightarrow> Packet list \<Rightarrow> error + bytes" where
  "Encode c packets =
     (if length packets < 1 then Inl ErrEmptyPackets else Encode_loop c [] packets)"

text \<open>
  What the payload framing needs of the single-packet codec for one packet \<open>p\<close>: when the
  encoder chosen by \<open>writePacket\<close> succeeds, its output is not empty, starts with \<open>b\<close>
  exactly when it is the base64 encoder's, fits in a Go slice, decodes back to \<open>p\<close>, and
  the base64 encoder's output is ASCII.
\<close>

definition codec_ok :: "codec \<Rightarrow> Packet \<Rightarrow> bool" where
  "codec_ok c p =
     (if Option p AND BINARY c \<noteq> BINARY c then
        (case stringEncode c p of
           Inl err \<Rightarrow> True
         | Inr d \<Rightarrow>
             d \<noteq> [] \<and> d ! 0 \<noteq> 0x62 \<and> int (length d) \<le> maxInt \<and> stringDecode c d = Inr p)
      else
        (case base64Encode c p of
           Inl err \<Rightarrow> True
         | Inr d \<Rightarrow>
             d \<noteq> [] \<and> d ! 0 = 0x62 \<and> int (length d) \<le> maxInt \<and> list_all (\<lambda>b. unat b < 0x80) d
             \<and> base64Decode c d = Inr p))"

section \<open>The single-packet codec of the spec\<close>

text \<open>
  Modelled from the spec: the base64 that section 4.1 names for the binary encoder
  (standard alphabet, padded) is a library outside the sources. The alphabet is \<open>A\<close> to
  \<open>Z\<close>, \<open>a\<close> to \<open>z\<close>, \<open>0\<close> to \<open>9\<close>, \<open>+\<close> and \<open>/\<close>; three bytes become four characters, and
  \<open>=\<close> pads the last group.
\<close>

definition sextet_code :: "nat \<Rightarrow> nat" where
  "sextet_code k =
     (if k < 26 then 65 + k
      else if k < 52 then 71 + k
      else if k < 62 then k - 4
      else if k = 62 then 43
      else 47)"

definition sextet :: "nat \<Rightarrow> byte" where
  "sextet k = of_nat (sextet_code k)"

fun b64_encode :: "bytes \<Rightarrow> bytes" where
  "b64_encode [] = []"
| "b64_encode [a] =
     [sextet (unat a div 4), sextet (unat a mod 4 * 16), 0x3D, 0x3D]"
| "b64_encode [a, b] =
     [sextet (unat a div 4), sextet (unat a mod 4 * 16 + unat b div 16),
      sextet (unat b mod 16 * 4), 0x3D]"
| "b64_encode (a # b # c # rest) =
     [sextet (unat a div 4), sextet (unat a mod 4 * 16 + unat b div 16),
      sextet (unat b mod 16 * 4 + unat c div 64), sextet (unat c mod 64)]
     @ b64_encode rest"

definition b64_index :: "byte \<Rightarrow> nat option" where
  "b64_index ch =
     (let c = unat ch in
      if 65 \<le> c \<and> c \<le> 90 then Some (c - 65)
      else if 97 \<le> c \<and> c \<le> 122 then Some (c - 71)
      else if 48 \<le> c \<and> c \<le> 57 then Some (c + 4)
      else if c = 43 then Some 62
      else if c = 47 then Some 63
      else None)"

fun b64_decode :: "bytes \<Rightarrow> bytes option" where
  "b64_decode [] = Some []"
| "b64_decode (a # b # c # d # rest) =
     (if c = 0x3D \<and> d = 0x3D \<and> rest = [] then
        (case (b64_index a, b64_index b) of
           (Some x, Some y) \<Rightarrow> Some [of_nat (x * 4 + y div 16)]
         | _ \<Rightarrow> None)
      else if d = 0x3D \<and> rest = [] then
        (case (b64_index a, b64_index b, b64_index c) of
           (Some x, Some y, Some z) \<Rightarrow>
             Some [of_nat (x * 4 + y div 16), of_nat (y mod 16 * 16 + z div 4)]
         | _ \<Rightarrow> None)
      else
        (case (b64_index a, b64_index b, b64_index c, b64_index d) of
           (Some x, Some y, Some z, Some u) \<Rightarrow>
             (case b64_decode rest of
                None \<Rightarrow> None
              | Some bs \<Rightarrow>
                  Some ([of_nat (x * 4 + y div 16), of_nat (y mod 16 * 16 + z div 4),
                         of_nat (z mod 4 * 64 + u)] @ bs))
         | _ \<Rightarrow> None))"
| "b64_decode _ = None"

text \<open>
  Go's \<open>utf8.Valid\<close>: every rune is an ASCII byte or a well-formed multi-byte sequence.
\<close>

function Valid :: "bytes \<Rightarrow> bool" where
  "Valid p =
     (if p = [] then True
      else if unat (p ! 0) < 0x80 then Valid (drop 1 p)
      else if DecodeRune_size p < 2 then False
      else Valid (drop (DecodeRune_size p) p))"
  by pat_completeness auto
termination
proof (relation "measure length")
  show "wf (measure length)" by simp
next
  fix p :: bytes
  assume "p \<noteq> []"
  then show "(drop 1 p, p) \<in> measure length" by simp
next
  fix p :: bytes
  assume "p \<noteq> []" and "\<not> DecodeRune_size p < 2"
  then show "(drop (DecodeRune_size p) p, p) \<in> measure length" by simp
qed

declare Valid.simps [simp del]

text \<open>
  Modelled from the spec: the single-packet codec (\<open>stringEncoder\<close>, \<open>base64Encoder\<close>,
  the flag \<open>BINARY\<close>) is not among the sources. Section 4.1: the string encoder writes the
  character \<open>'0' + type\<close> followed by the payload as UTF-8 text and rejects opaque bytes;
  the binary encoder writes \<open>b\<close>, the character \<open>'0' + type\<close> and the base64 of the
  payload; the decoders reject empty input, an unknown type digit, invalid base64 and
  invalid UTF-8. A decoded string packet has the option flag clear, a decoded binary
  packet has it set (scenario 5 of section 8).
\<close>

definition spec_BINARY :: byte where
  "spec_BINARY = 1"

definition spec_stringEncode :: "Packet \<Rightarrow> error + bytes" where
  "spec_stringEncode p =
     (if Option p AND spec_BINARY = spec_BINARY then Inl (ErrCodec ''opaque bytes'')
      else if \<not> Valid (Data p) then Inl (ErrCodec ''invalid UTF-8'')
      else Inr ((0x30 + Type p) # Data p))"

definition spec_stringDecode :: "bytes \<Rightarrow> error + Packet" where
  "spec_stringDecode input =
     (case input of
        [] \<Rightarrow> Inl (ErrCodec ''empty input'')
      | t # body \<Rightarrow>
          if unat t < 0x30 \<or> 0x36 < unat t then Inl (ErrCodec ''unknown type'')
          else if \<not> Valid body then Inl (ErrCodec ''invalid UTF-8'')
          else Inr \<lparr>Type = t - 0x30, Data = body, Option = 0\<rparr>)"

definition spec_base64Encode :: "Packet \<Rightarrow> error + bytes" where
  "spec_base64Encode p = Inr (0x62 # (0x30 + Type p) # b64_encode (Data p))"

definition spec_base64Decode :: "bytes \<Rightarrow> error + Packet" where
  "spec_base64Decode input =
     (case input of
        b # t # body \<Rightarrow>
          if b \<noteq> 0x62 then Inl (ErrCodec ''not binary'')
          else if unat t < 0x30 \<or> 0x36 < unat t then Inl (ErrCodec ''unknown type'')
          else
            (case b64_decode body of
               None \<Rightarrow> Inl (ErrCodec ''invalid base64'')
             | Some data \<Rightarrow> Inr \<lparr>Type = t - 0x30, Data = data, Option = spec_BINARY\<rparr>)
      | _ \<Rightarrow> Inl (ErrCodec ''empty input''))"

definition spec_codec :: codec where
  "spec_codec =
     \<lparr>BINARY = spec_BINARY, stringEncode = spec_stringEncode,
      stringDecode = spec_stringDecode, base64Encode = spec_base64Encode,
      base64Decode = spec_base64Decode\<rparr>"

section \<open>UTF-8 text\<close>

text \<open>
  What the spec calls a code point, and its UTF-8 encoding as the standard (RFC 3629) has
  it: a code point is a Unicode scalar value, below \<open>0x110000\<close> and outside the
  surrogates \<open>0xD800\<close> to \<open>0xDFFF\<close>, and is written in one to four bytes. \<open>utf8_text\<close>
  is the UTF-8 text of a list of code points. Nothing of the program is defined from
  these; they say what the rune count of the program counts.
\<close>

definition b8 :: "nat \<Rightarrow> byte" where
  "b8 n = of_nat n"

definition code_point :: "nat \<Rightarrow> bool" where
  "code_point u = (u < 0xD800 \<or> (0xDFFF < u \<and> u < 0x110000))"

definition utf8_encode :: "nat \<Rightarrow> bytes" where
  "utf8_encode u =
     (if u < 0x80 then [b8 u]
      else if u < 0x800 then [b8 (0xC0 + u div 64), b8 (0x80 + u mod 64)]
      else if u < 0x10000 then
        [b8 (0xE0 + u div 4096), b8 (0x80 + u div 64 mod 64), b8 (0x80 + u mod 64)]
      else
        [b8 (0xF0 + u div 262144), b8 (0x80 + u div 4096 mod 64),
         b8 (0x80 + u div 64 mod 64), b8 (0x80 + u mod 64)])"

definition utf8_text :: "nat list \<Rightarrow> bytes" where
  "utf8_text cps = concat (map utf8_encode cps)"

text \<open>
  For concrete runs: a single-packet codec whose two encoders return the payload as it
  is, so that the encoded form of a packet is exactly its payload.
\<close>

definition raw_codec :: codec where
  "raw_codec =
     \<lparr>BINARY = 1, stringEncode = (\<lambda>p. Inr (Data p)),
      stringDecode = (\<lambda>d. Inr \<lparr>Type = MESSAGE, Data = d, Option = 0\<rparr>),
      base64Encode = (\<lambda>p. Inr (Data p)),
      base64Decode = (\<lambda>d. Inr \<lparr>Type = MESSAGE, Data = d, Option = 1\<rparr>)\<rparr>"

section \<open>The socket (socket.go)\<close>

text \<open>
  A transport is an interface value; the socket only holds references to transports, so a
  transport is a handle here and \<open>None\<close> is Go's \<open>nil\<close>. Registered handlers are closures;
  they are handles as well, and calling one is an observable event.
\<close>

type_synonym transport = nat
type_synonym handler = nat

datatype event =
    TWrite transport Packet
  | TClose transport
  | TUpgradeEnd transport transport
  | CloseFired handler string
  | UpgradeFired handler
  | MsgFired handler bytes

text \<open>
  What the socket calls but does not define: the results of \<open>Transport.write\<close> and
  \<open>Transport.close\<close> (an error message, or \<open>None\<close> for \<open>nil\<close>), the clock \<open>now32()\<close>
  and the constructor \<open>parser.NewPacket(type, message)\<close> over messages of type \<open>'m\<close>.
\<close>

record 'm env =
  t_write :: "transport \<Rightarrow> Packet \<Rightarrow> string option"
  t_close :: "transport \<Rightarrow> string option"
  now32 :: "32 word"
  NewPacket :: "byte \<Rightarrow> 'm \<Rightarrow> Packet"

text \<open>The struct \<open>socketImpl\<close>; the back pointer \<open>engine\<close> plays no part below.\<close>

record socketImpl =
  sock_id :: string
  heartbeat :: "32 word"
  msgHandlers :: "handler list"
  upgradeHandlers :: "handler list"
  errorHandlers :: "handler list"
  closeHandlers :: "handler list"
  transportBackup :: "transport option"
  transportPrimary :: "transport option"

definition newSocket :: "'m env \<Rightarrow> string \<Rightarrow> socketImpl" where
  "newSocket e i =
     \<lparr>sock_id = i, heartbeat = now32 e, msgHandlers = [], upgradeHandlers = [],
      errorHandlers = [], closeHandlers = [], transportBackup = None,
      transportPrimary = None\<rparr>"

definition isHeartbeat :: "socketImpl \<Rightarrow> bool" where
  "isHeartbeat p = (heartbeat p = 0)"

definition OnClose :: "socketImpl \<Rightarrow> handler option \<Rightarrow> socketImpl" where
  "OnClose p h =
     (case h of None \<Rightarrow> p
      | Some f \<Rightarrow> p\<lparr>closeHandlers := closeHandlers p @ [f]\<rparr>)"

definition OnUpgrade :: "socketImpl \<Rightarrow> handler option \<Rightarrow> socketImpl" where
  "OnUpgrade p h =
     (case h of None \<Rightarrow> p
      | Some f \<Rightarrow> p\<lparr>upgradeHandlers := upgradeHandlers p @ [f]\<rparr>)"

definition setTransport :: "socketImpl \<Rightarrow> transport \<Rightarrow> error option \<times> socketImpl" where
  "setTransport p t =
     (if transportPrimary p \<noteq> None then (Some ErrTransportsFull, p)
      else if transportBackup p = None then (None, p\<lparr>transportBackup := Some t\<rparr>)
      else (None, p\<lparr>transportPrimary := Some t\<rparr>))"

definition getTransport :: "socketImpl \<Rightarrow> error + transport" where
  "getTransport p =
     (case transportPrimary p of
        Some t \<Rightarrow> Inr t
      | None \<Rightarrow>
         (case transportBackup p of
            Some t \<Rightarrow> Inr t
          | None \<Rightarrow> Inl (Panic ''transport unavailable'')))"

text \<open>
  \<open>Send\<close> returns Go's \<open>error\<close> (\<open>None\<close> is \<open>nil\<close>) and the trace of events extended by
  what it did. Calling \<open>write\<close> on a nil \<open>transportPrimary\<close> panics.
\<close>

definition Send :: "'m env \<Rightarrow> socketImpl \<Rightarrow> 'm \<Rightarrow> event list \<Rightarrow> error option \<times> event list" where
  "Send e p message tr =
     (if \<not> isHeartbeat p then (Some (ErrSocketClosed (sock_id p)), tr)
      else
        let packet = NewPacket e MESSAGE message in
        (case transportBackup p of
           Some b \<Rightarrow> (map_option ErrTransport (t_write e b packet), tr @ [TWrite b packet])
         | None \<Rightarrow>
            (case transportPrimary p of
               Some t \<Rightarrow> (map_option ErrTransport (t_write e t packet), tr @ [TWrite t packet])
             | None \<Rightarrow> (Some (Panic ''nil pointer dereference''), tr))))"

definition close_primary :: "'m env \<Rightarrow> socketImpl \<Rightarrow> event list \<Rightarrow> string \<times> event list" where
  "close_primary e p tr =
     (case transportPrimary p of
        None \<Rightarrow> ([], tr)
      | Some t \<Rightarrow>
         (case t_close e t of
            None \<Rightarrow> ([], tr @ [TClose t])
          | Some err \<Rightarrow> (err, tr @ [TClose t])))"

definition close_backup :: "'m env \<Rightarrow> socketImpl \<Rightarrow> string \<Rightarrow> event list \<Rightarrow> string \<times> event list" where
  "close_backup e p reason tr =
     (case transportBackup p of
        None \<Rightarrow> (reason, tr)
      | Some t \<Rightarrow>
         (case t_close e t of
            None \<Rightarrow> (reason, tr @ [TClose t])
          | Some err \<Rightarrow>
             ((if length reason > 0 then reason @ '', '' else reason) @ err,
              tr @ [TClose t])))"

definition Close :: "'m env \<Rightarrow> socketImpl \<Rightarrow> event list \<Rightarrow> socketImpl \<times> event list" where
  "Close e p tr =
     (if \<not> isHeartbeat p then (p, tr)
      else
        let p' = p\<lparr>heartbeat := 0\<rparr>;
            (reason1, tr1) = close_primary e p' tr;
            (reason, tr2) = close_backup e p' reason1 tr1
        in (p', tr2 @ map (\<lambda>fn. CloseFired fn reason) (closeHandlers p')))"

text \<open>
  The PING case of \<open>accept\<close> starts a goroutine and returns at once; the goroutine is a
  task handed back to the caller, and \<open>run_task\<close> is its body.
\<close>

datatype task = PongTask Packet

definition accept ::
  "'m env \<Rightarrow> socketImpl \<Rightarrow> Packet \<Rightarrow> event list \<Rightarrow>
     error option \<times> socketImpl \<times> event list \<times> task list" where
  "accept e p packet tr =
     (if Type packet = CLOSE then
        (let (p', tr') = Close e p tr in (None, p', tr', []))
      else if Type packet = UPGRADE then
        (case (transportPrimary p, transportBackup p) of
           (Some tPrimary, Some tBackup) \<Rightarrow>
             (let tr1 = tr @ [TUpgradeEnd tBackup tPrimary];
                  p1 = p\<lparr>transportBackup := None\<rparr>;
                  tr2 = tr1 @ [TClose tBackup]
              in case t_close e tBackup of
                   Some err \<Rightarrow> (Some (ErrTransport err), p1, tr2, [])
                 | None \<Rightarrow> (None, p1, tr2 @ map UpgradeFired (upgradeHandlers p1), []))
         | _ \<Rightarrow> (None, p, tr @ map UpgradeFired (upgradeHandlers p), []))
      else if Type packet = PING then (None, p, tr, [PongTask packet])
      else if Type packet = MESSAGE then
        (None, p, tr @ map (\<lambda>fn. MsgFired fn (Data packet)) (msgHandlers p), [])
      else (Some (ErrUnsupportedPacket (Type packet)), p, tr, []))"

fun run_task :: "'m env \<Rightarrow> task \<Rightarrow> socketImpl \<Rightarrow> event list \<Rightarrow> error option \<times> socketImpl \<times> event list" where
  "run_task e (PongTask packet) p tr =
     (let p' = (if isHeartbeat p then p\<lparr>heartbeat := now32 e\<rparr> else p);
          pong = NewPacketCustom PONG (Data packet) 0
      in case getTransport p' of
           Inl err \<Rightarrow> (Some err, p', tr)
         | Inr t \<Rightarrow> (None, p', tr @ [TWrite t pong]))"

text \<open>
  An environment for concrete runs: transports that report no error, a clock that reads
  \<open>clock\<close>, and byte-string messages turned into packets with a clear option flag.
\<close>

definition quiet_env :: "32 word \<Rightarrow> bytes env" where
  "quiet_env clock =
     \<lparr>t_write = (\<lambda>t pk. None), t_close = (\<lambda>t. None), now32 = clock,
      NewPacket = (\<lambda>t m. NewPacketCustom t m 0)\<rparr>"

text \<open>The same, with transports whose \<open>close\<close> fails with the message \<open>boom\<close>.\<close>

definition failing_env :: "32 word \<Rightarrow> bytes env" where
  "failing_env clock = (quiet_env clock)\<lparr>t_close := (\<lambda>t. Some ''boom'')\<rparr>"

text \<open>
  A socket created when the clock reads \<open>clock\<close>, with the transports of the list
  attached in order (the first becomes the backup, the second the primary).
\<close>

definition attach :: "socketImpl \<Rightarrow> transport \<Rightarrow> socketImpl" where
  "attach p t = snd (setTransport p t)"

definition socket_at :: "32 word \<Rightarrow> transport list \<Rightarrow> socketImpl" where
  "socket_at clock ts = foldl attach (newSocket (quiet_env clock) ''s1'') ts"

text \<open>
  The socket that \<open>accept\<close> leaves when an UPGRADE packet comes in: with both transports
  set before, only the primary is set after.
\<close>

definition upgraded :: "socketImpl \<Rightarrow> socketImpl" where
  "upgraded p = fst (snd (accept (quiet_env 0) p \<lparr>Type = UPGRADE, Data = [], Option = 0\<rparr> []))"

section \<open>Properties of the payload codec\<close>

subsection \<open>Decimal numbers\<close>

lemma unat_digit: "k < 10 \<Longrightarrow> unat (digit k) = 48 + k"
proof -
  assume "k < 10"
  have "unat (digit k) = unat (of_nat (48 + k) :: byte)"
    by (simp add: digit_def)
  also have "\<dots> = (48 + k) mod 2 ^ LENGTH(8)"
    by (simp only: unat_of_nat)
  also have "\<dots> = 48 + k"
    using \<open>k < 10\<close> by simp
  finally show ?thesis .
qed

lemma is_digit_digit: "k < 10 \<Longrightarrow> is_digit (digit k)"
  by (simp add: is_digit_def unat_digit)

lemma decimal_nonempty: "decimal n \<noteq> []"
  by (subst decimal.simps) simp

lemma decimal_digits: "list_all is_digit (decimal n)"
proof (induction n rule: decimal.induct)
  case (1 n)
  show ?case
  proof (cases "n < 10")
    case True
    then show ?thesis
      by (subst decimal.simps) (simp add: is_digit_digit)
  next
    case False
    with 1 show ?thesis
      by (subst decimal.simps) (simp add: is_digit_digit)
  qed
qed

lemma digits_value_snoc:
  "digits_value (ds @ [d]) = digits_value ds * 10 + (uint d - 48)"
  by (simp add: digits_value_def)

lemma uint_digit: "k < 10 \<Longrightarrow> uint (digit k) = 48 + int k"
  using unat_digit [of k] by (simp add: uint_nat)

lemma digits_value_decimal: "digits_value (decimal n) = int n"
proof (induction n rule: decimal.induct)
  case (1 n)
  show ?case
  proof (cases "n < 10")
    case True
    then show ?thesis
      by (subst decimal.simps) (simp add: digits_value_def uint_digit)
  next
    case False
    with 1 show ?thesis
      by (subst decimal.simps) (simp add: digits_value_snoc uint_digit zdiv_int zmod_int)
  qed
qed

lemma is_digit_facts:
  "is_digit b \<Longrightarrow> b \<noteq> 0x3A \<and> b \<noteq> 0x2D \<and> b \<noteq> 0x2B \<and> unat b < 0x80"
  by (auto simp: is_digit_def)

lemma decimal_hd: "is_digit (hd (decimal n))"
  using decimal_digits [of n] decimal_nonempty [of n]
  by (cases "decimal n") simp_all

lemma Atoi_decimal:
  assumes "int n \<le> maxInt"
  shows "Atoi (decimal n) = Inr (int n)"
proof -
  have "hd (decimal n) \<noteq> 0x2D" "hd (decimal n) \<noteq> 0x2B"
    using decimal_hd [of n] is_digit_facts by blast+
  then show ?thesis
    using assms decimal_nonempty [of n] decimal_digits [of n]
    by (simp add: Atoi_def Let_def digits_value_decimal)
qed

lemma readPacketLength_loop_skip:
  assumes "\<forall>b \<in> set ds. b \<noteq> 0x3A" and "i \<le> length ds"
  shows "readPacketLength_loop (ds @ 0x3A # rest) i
         = readPacketLength_loop (ds @ 0x3A # rest) (length ds)"
  using assms(2)
proof (induction "length ds - i" arbitrary: i)
  case 0
  then show ?case by simp
next
  case (Suc k)
  then have lt: "i < length ds" by simp
  with assms(1) have "(ds @ 0x3A # rest) ! i \<noteq> 0x3A"
    by (simp add: nth_append)
  moreover from Suc lt have "readPacketLength_loop (ds @ 0x3A # rest) (i + 1)
         = readPacketLength_loop (ds @ 0x3A # rest) (length ds)"
    by simp
  ultimately show ?case using lt
    by (subst readPacketLength_loop.simps) simp
qed

lemma readPacketLength_frame:
  assumes "int n \<le> maxInt"
  shows "readPacketLength (decimal n @ 0x3A # rest) = (int n, rest, None)"
proof -
  have "\<forall>b \<in> set (decimal n). b \<noteq> 0x3A"
    using decimal_digits [of n] is_digit_facts by (auto simp: list_all_iff)
  then have "readPacketLength (decimal n @ 0x3A # rest)
      = readPacketLength_loop (decimal n @ 0x3A # rest) (length (decimal n))"
    unfolding readPacketLength_def by (rule readPacketLength_loop_skip) simp
  also have "\<dots> = (int n, rest, None)"
    using assms by (subst readPacketLength_loop.simps) (simp add: Atoi_decimal)
  finally show ?thesis .
qed

subsection \<open>Runes\<close>

lemma DecodeRune_size_ascii: "unat a < 0x80 \<Longrightarrow> DecodeRune_size (a # p) = 1"
  by (simp add: DecodeRune_size_def utf8_first_def Let_def)

lemma DecodeRune_size_append:
  assumes "d \<noteq> []" and "r = [] \<or> unat (hd r) < 0x80"
  shows "DecodeRune_size (d @ r) = DecodeRune_size d"
proof (cases r)
  case Nil
  then show ?thesis by simp
next
  case r: (Cons x r')
  with assms have x: "unat x < 0x80" by simp
  from assms obtain a q where d: "d = a # q" by (cases d) auto
  show ?thesis
  proof (cases "utf8_first a")
    case None
    with d show ?thesis by (simp add: DecodeRune_size_def Let_def)
  next
    case (Some t)
    obtain sz lo hi where t: "t = (sz, lo, hi)" by (cases t)
    from Some t utf8_first_size have "2 \<le> sz" "sz \<le> 4" and lo: "0x80 \<le> lo"
      by blast+
    then have sz: "sz = 2 \<or> sz = 3 \<or> sz = 4" by arith
    show ?thesis
    proof (cases q)
      case Nil
      with Some t sz lo d r x show ?thesis
        by (auto simp: DecodeRune_size_def Let_def)
    next
      case q: (Cons b q1)
      show ?thesis
      proof (cases q1)
        case Nil
        with Some t sz lo d r x q show ?thesis
          by (auto simp: DecodeRune_size_def Let_def)
      next
        case q1: (Cons c q2)
        show ?thesis
        proof (cases q2)
          case Nil
          with Some t sz lo d r x q q1 show ?thesis
            by (auto simp: DecodeRune_size_def Let_def)
        next
          case (Cons e q3)
          with Some t sz lo d r x q q1 show ?thesis
            by (auto simp: DecodeRune_size_def Let_def)
        qed
      qed
    qed
  qed
qed

lemma RuneCount_Nil: "RuneCount [] = 0"
  by (simp add: RuneCount.simps)

lemma RuneCount_step:
  "p \<noteq> [] \<Longrightarrow> RuneCount p = 1 + RuneCount (drop (DecodeRune_size p) p)"
  by (subst RuneCount.simps) simp

lemma RuneCount_ascii: "list_all (\<lambda>b. unat b < 0x80) d \<Longrightarrow> RuneCount d = length d"
proof (induction d)
  case Nil
  then show ?case by (simp add: RuneCount_Nil)
next
  case (Cons a d)
  then show ?case
    by (simp add: RuneCount_step DecodeRune_size_ascii)
qed

lemma RuneCount_le: "RuneCount d \<le> length d"
proof (induction d rule: RuneCount.induct)
  case (1 p)
  show ?case
  proof (cases "p = []")
    case True
    then show ?thesis by (simp add: RuneCount_Nil)
  next
    case False
    with 1 have "RuneCount (drop (DecodeRune_size p) p) \<le> length p - DecodeRune_size p"
      by simp
    moreover from False have "0 < DecodeRune_size p" by (rule DecodeRune_size_pos)
    moreover have "DecodeRune_size p \<le> length p" by (rule DecodeRune_size_le)
    ultimately show ?thesis using False by (simp add: RuneCount_step)
  qed
qed

lemma readPacketString_loop_runes:
  assumes "r = [] \<or> unat (hd r) < 0x80" and "i \<le> length d"
  shows "readPacketString_loop (d @ r) i (int (RuneCount (drop i d))) = length d"
  using assms(2)
proof (induction "length d - i" arbitrary: i rule: less_induct)
  case less
  show ?case
  proof (cases "i = length d")
    case True
    then show ?thesis
      by (simp add: RuneCount_Nil readPacketString_loop_stop)
  next
    case False
    with less.prems have lt: "i < length d" by simp
    define p where "p = drop i d"
    define w where "w = DecodeRune_size p"
    from lt have ne: "p \<noteq> []" by (simp add: p_def)
    then have w: "0 < w" "w \<le> length p"
      by (simp_all add: w_def DecodeRune_size_pos DecodeRune_size_le)
    have count: "RuneCount p = 1 + RuneCount (drop (i + w) d)"
      using ne by (simp add: RuneCount_step w_def p_def add.commute)
    have width: "DecodeRune_size (drop i d @ r) = w"
      using ne assms(1) by (simp add: DecodeRune_size_append w_def p_def)
    from w lt have le: "i + w \<le> length d" by (simp add: p_def)
    from w lt have "length d - (i + w) < length d - i" by simp
    from less.hyps [OF this le]
    have "readPacketString_loop (d @ r) (i + w) (int (RuneCount (drop (i + w) d))) = length d" .
    moreover have "readPacketString_loop (d @ r) i (int (RuneCount p))
        = readPacketString_loop (d @ r) (i + w) (int (RuneCount (drop (i + w) d)))"
      using lt by (subst readPacketString_loop_step) (simp_all add: width count)
    ultimately show ?thesis by (simp add: p_def)
  qed
qed

lemma readPacketString_frame:
  assumes "r = [] \<or> unat (hd r) < 0x80"
  shows "readPacketString (d @ r) (int (RuneCount d)) = (d, r, None)"
  using readPacketString_loop_runes [OF assms, of 0 d]
  by (simp add: readPacketString_def)

subsection \<open>The rune count of UTF-8 text\<close>

text \<open>
  \<open>DecodeRune\<close> takes the whole encoding of a code point as one rune, whatever follows
  it, so \<open>RuneCount\<close> of the UTF-8 text of a list of code points is the length of the
  list.
\<close>

lemma unat_b8: "n < 256 \<Longrightarrow> unat (b8 n) = n"
  by (simp add: b8_def unat_of_nat)

lemma DecodeRune_size_2:
  assumes "utf8_first a = Some (2, lo, hi)" and "lo \<le> unat b" and "unat b \<le> hi"
  shows "DecodeRune_size (a # b # r) = 2"
  using assms by (simp add: DecodeRune_size_def)

lemma DecodeRune_size_3:
  assumes "utf8_first a = Some (3, lo, hi)" and "lo \<le> unat b" and "unat b \<le> hi"
    and "0x80 \<le> unat c" and "unat c \<le> 0xBF"
  shows "DecodeRune_size (a # b # c # r) = 3"
  using assms by (simp add: DecodeRune_size_def)

lemma DecodeRune_size_4:
  assumes "utf8_first a = Some (4, lo, hi)" and "lo \<le> unat b" and "unat b \<le> hi"
    and "0x80 \<le> unat c" and "unat c \<le> 0xBF" and "0x80 \<le> unat d" and "unat d \<le> 0xBF"
  shows "DecodeRune_size (a # b # c # d # r) = 4"
  using assms by (simp add: DecodeRune_size_def)

lemma cont_byte: "0x80 \<le> unat (b8 (0x80 + k mod 64)) \<and> unat (b8 (0x80 + k mod 64)) \<le> 0xBF"
proof -
  have "k mod 64 < 64" by simp
  then have "0x80 + k mod 64 < 256" by simp
  then have "unat (b8 (0x80 + k mod 64)) = 0x80 + k mod 64" by (rule unat_b8)
  with \<open>k mod 64 < 64\<close> show ?thesis by simp
qed

lemma div_lower: "c * (k::nat) \<le> u \<Longrightarrow> 0 < k \<Longrightarrow> c \<le> u div k"
  by (simp add: less_eq_div_iff_mult_less_eq)

lemma div_upper: "(u::nat) < c * k \<Longrightarrow> u div k < c"
  by (simp add: less_mult_imp_div_less)

lemma mod_window:
  assumes "c * 64 \<le> (n::nat)" and "n < c * 64 + 64"
  shows "n mod 64 = n - c * 64"
proof -
  from assms have "n = (n - c * 64) + c * 64" by simp
  then have "n mod 64 = ((n - c * 64) + c * 64) mod 64" by simp
  also have "\<dots> = (n - c * 64) mod 64" by (simp only: mod_mult_self1)
  also from assms have "\<dots> = n - c * 64" by simp
  finally show ?thesis .
qed

lemma a3_lo: "0x800 \<le> u \<Longrightarrow> u < 0x1000 \<Longrightarrow> 32 \<le> (u::nat) div 64 mod 64"
proof -
  assume "0x800 \<le> u" and "u < 0x1000"
  then have "32 \<le> u div 64" and "u div 64 < 64"
    by (simp_all add: div_lower div_upper)
  then show ?thesis by simp
qed

lemma a3_ed: "0xD000 \<le> u \<Longrightarrow> u < 0xD800 \<Longrightarrow> (u::nat) div 64 mod 64 < 32"
proof -
  assume "0xD000 \<le> u" and "u < 0xD800"
  then have "832 \<le> u div 64" and "u div 64 < 864"
    by (simp_all add: div_lower div_upper)
  then have "u div 64 mod 64 = u div 64 - 13 * 64" and "u div 64 - 13 * 64 < 32"
    by (simp_all add: mod_window [of 13])
  then show ?thesis by simp
qed

lemma a4_lo: "0x10000 \<le> u \<Longrightarrow> u < 0x40000 \<Longrightarrow> 16 \<le> (u::nat) div 4096 mod 64"
proof -
  assume "0x10000 \<le> u" and "u < 0x40000"
  then have "16 \<le> u div 4096" and "u div 4096 < 64"
    by (simp_all add: div_lower div_upper)
  then show ?thesis by simp
qed

lemma a4_hi: "0x100000 \<le> u \<Longrightarrow> u < 0x110000 \<Longrightarrow> (u::nat) div 4096 mod 64 < 16"
proof -
  assume "0x100000 \<le> u" and "u < 0x110000"
  then have "256 \<le> u div 4096" and "u div 4096 < 272"
    by (simp_all add: div_lower div_upper)
  then have "u div 4096 mod 64 = u div 4096 - 4 * 64" and "u div 4096 - 4 * 64 < 16"
    by (simp_all add: mod_window [of 4])
  then show ?thesis by simp
qed

lemma utf8_first_by_range:
  "0xC2 \<le> unat a \<Longrightarrow> unat a < 0xE0 \<Longrightarrow> utf8_first a = Some (2, 0x80, 0xBF)"
  "unat a = 0xE0 \<Longrightarrow> utf8_first a = Some (3, 0xA0, 0xBF)"
  "0xE1 \<le> unat a \<Longrightarrow> unat a < 0xED \<Longrightarrow> utf8_first a = Some (3, 0x80, 0xBF)"
  "unat a = 0xED \<Longrightarrow> utf8_first a = Some (3, 0x80, 0x9F)"
  "0xEE \<le> unat a \<Longrightarrow> unat a < 0xF0 \<Longrightarrow> utf8_first a = Some (3, 0x80, 0xBF)"
  "unat a = 0xF0 \<Longrightarrow> utf8_first a = Some (4, 0x90, 0xBF)"
  "0xF1 \<le> unat a \<Longrightarrow> unat a < 0xF4 \<Longrightarrow> utf8_first a = Some (4, 0x80, 0xBF)"
  "unat a = 0xF4 \<Longrightarrow> utf8_first a = Some (4, 0x80, 0x8F)"
  by (simp_all add: utf8_first_def Let_def)

lemma encode_1:
  assumes "u < 0x80"
  shows "DecodeRune_size (utf8_encode u @ r) = length (utf8_encode u)"
  using assms by (simp add: utf8_encode_def DecodeRune_size_ascii unat_b8)

lemma encode_2:
  assumes "0x80 \<le> u" and "u < 0x800"
  shows "DecodeRune_size (utf8_encode u @ r) = length (utf8_encode u)"
proof -
  from assms have l: "2 \<le> u div 64" "u div 64 < 32"
    by (simp_all add: div_lower div_upper)
  then have "unat (b8 (0xC0 + u div 64)) = 0xC0 + u div 64"
    by (simp add: unat_b8)
  with l have f: "utf8_first (b8 (0xC0 + u div 64)) = Some (2, 0x80, 0xBF)"
    by (simp add: utf8_first_by_range)
  from DecodeRune_size_2 [OF f, of "b8 (0x80 + u mod 64)" r] cont_byte [of u] assms
  show ?thesis by (simp add: utf8_encode_def)
qed

lemma encode_3_shape:
  assumes "0x800 \<le> u" and "u < 0x10000"
    and "utf8_first (b8 (0xE0 + u div 4096)) = Some (3, lo, hi)"
    and "lo \<le> 0x80 + u div 64 mod 64" and "0x80 + u div 64 mod 64 \<le> hi"
  shows "DecodeRune_size (utf8_encode u @ r) = length (utf8_encode u)"
proof -
  have "u div 64 mod 64 < 64" by simp
  then have "unat (b8 (0x80 + u div 64 mod 64)) = 0x80 + u div 64 mod 64"
    by (simp add: unat_b8)
  with assms(4,5) have b: "lo \<le> unat (b8 (0x80 + u div 64 mod 64))"
    "unat (b8 (0x80 + u div 64 mod 64)) \<le> hi" by simp_all
  from DecodeRune_size_3 [OF assms(3) b, of "b8 (0x80 + u mod 64)" r] cont_byte [of u] assms(1,2)
  show ?thesis by (simp add: utf8_encode_def)
qed

lemma encode_3:
  assumes "0x800 \<le> u" and "u < 0x10000" and "code_point u"
  shows "DecodeRune_size (utf8_encode u @ r) = length (utf8_encode u)"
proof -
  from assms(2) have q: "u div 4096 < 16" by (simp add: div_upper)
  then have ul: "unat (b8 (0xE0 + u div 4096)) = 0xE0 + u div 4096"
    by (simp add: unat_b8)
  have m: "u div 64 mod 64 < 64" by simp
  then have plain: "0x80 \<le> 0x80 + u div 64 mod 64" "0x80 + u div 64 mod 64 \<le> 0xBF"
    by simp_all
  from assms(3) have "u < 0xD800 \<or> 0xE000 \<le> u" by (auto simp: code_point_def)
  then consider (a) "u < 0x1000" | (b) "0x1000 \<le> u" "u < 0xD000"
    | (c) "0xD000 \<le> u" "u < 0xD800" | (d) "0xE000 \<le> u"
    by linarith
  then show ?thesis
  proof cases
    case a
    then have "u div 4096 < 1" by (simp add: div_upper)
    with ul have f: "utf8_first (b8 (0xE0 + u div 4096)) = Some (3, 0xA0, 0xBF)"
      by (simp add: utf8_first_by_range)
    from assms(1) a have "32 \<le> u div 64 mod 64" by (rule a3_lo)
    then have lo: "0xA0 \<le> 0x80 + u div 64 mod 64" by simp
    show ?thesis by (rule encode_3_shape [OF assms(1,2) f lo plain(2)])
  next
    case b
    then have "1 \<le> u div 4096" "u div 4096 < 13" by (simp_all add: div_lower div_upper)
    with ul have f: "utf8_first (b8 (0xE0 + u div 4096)) = Some (3, 0x80, 0xBF)"
      by (simp add: utf8_first_by_range)
    show ?thesis by (rule encode_3_shape [OF assms(1,2) f plain])
  next
    case c
    then have "13 \<le> u div 4096" "u div 4096 < 14" by (simp_all add: div_lower div_upper)
    with ul have f: "utf8_first (b8 (0xE0 + u div 4096)) = Some (3, 0x80, 0x9F)"
      by (simp add: utf8_first_by_range)
    from c have "u div 64 mod 64 < 32" by (rule a3_ed)
    then have hi: "0x80 + u div 64 mod 64 \<le> 0x9F" by simp
    show ?thesis by (rule encode_3_shape [OF assms(1,2) f plain(1) hi])
  next
    case d
    then have "14 \<le> u div 4096" by (simp add: div_lower)
    with ul q have f: "utf8_first (b8 (0xE0 + u div 4096)) = Some (3, 0x80, 0xBF)"
      by (simp add: utf8_first_by_range)
    show ?thesis by (rule encode_3_shape [OF assms(1,2) f plain])
  qed
qed

lemma encode_4_shape:
  assumes "0x10000 \<le> u"
    and "utf8_first (b8 (0xF0 + u div 262144)) = Some (4, lo, hi)"
    and "lo \<le> 0x80 + u div 4096 mod 64" and "0x80 + u div 4096 mod 64 \<le> hi"
  shows "DecodeRune_size (utf8_encode u @ r) = length (utf8_encode u)"
proof -
  have "u div 4096 mod 64 < 64" by simp
  then have "unat (b8 (0x80 + u div 4096 mod 64)) = 0x80 + u div 4096 mod 64"
    by (simp add: unat_b8)
  with assms(3,4) have b: "lo \<le> unat (b8 (0x80 + u div 4096 mod 64))"
    "unat (b8 (0x80 + u div 4096 mod 64)) \<le> hi" by simp_all
  have c: "0x80 \<le> unat (b8 (0x80 + u div 64 mod 64))" "unat (b8 (0x80 + u div 64 mod 64)) \<le> 0xBF"
    and d: "0x80 \<le> unat (b8 (0x80 + u mod 64))" "unat (b8 (0x80 + u mod 64)) \<le> 0xBF"
    using cont_byte [of "u div 64"] cont_byte [of u] by simp_all
  from DecodeRune_size_4 [OF assms(2) b c d, of r] assms(1)
  show ?thesis by (simp add: utf8_encode_def)
qed

lemma encode_4:
  assumes "0x10000 \<le> u" and "u < 0x110000"
  shows "DecodeRune_size (utf8_encode u @ r) = length (utf8_encode u)"
proof -
  from assms(2) have q: "u div 262144 < 5" by (simp add: div_upper)
  then have ul: "unat (b8 (0xF0 + u div 262144)) = 0xF0 + u div 262144"
    by (simp add: unat_b8)
  have "u div 4096 mod 64 < 64" by simp
  then have plain: "0x80 \<le> 0x80 + u div 4096 mod 64" "0x80 + u div 4096 mod 64 \<le> 0xBF"
    by simp_all
  consider (a) "u < 0x40000" | (b) "0x40000 \<le> u" "u < 0x100000" | (c) "0x100000 \<le> u"
    by linarith
  then show ?thesis
  proof cases
    case a
    then have "u div 262144 < 1" by (simp add: div_upper)
    with ul have f: "utf8_first (b8 (0xF0 + u div 262144)) = Some (4, 0x90, 0xBF)"
      by (simp add: utf8_first_by_range)
    from assms(1) a have "16 \<le> u div 4096 mod 64" by (rule a4_lo)
    then have lo: "0x90 \<le> 0x80 + u div 4096 mod 64" by simp
    show ?thesis by (rule encode_4_shape [OF assms(1) f lo plain(2)])
  next
    case b
    then have "1 \<le> u div 262144" "u div 262144 < 4" by (simp_all add: div_lower div_upper)
    with ul have f: "utf8_first (b8 (0xF0 + u div 262144)) = Some (4, 0x80, 0xBF)"
      by (simp add: utf8_first_by_range)
    show ?thesis by (rule encode_4_shape [OF assms(1) f plain])
  next
    case c
    then have "4 \<le> u div 262144" by (simp add: div_lower)
    with ul q have f: "utf8_first (b8 (0xF0 + u div 262144)) = Some (4, 0x80, 0x8F)"
      by (simp add: utf8_first_by_range)
    from c assms(2) have "u div 4096 mod 64 < 16" by (rule a4_hi)
    then have hi: "0x80 + u div 4096 mod 64 \<le> 0x8F" by simp
    show ?thesis by (rule encode_4_shape [OF assms(1) f plain(1) hi])
  qed
qed

lemma DecodeRune_size_encode:
  assumes "code_point u"
  shows "DecodeRune_size (utf8_encode u @ r) = length (utf8_encode u)"
proof -
  from assms have "u < 0x110000" by (auto simp: code_point_def)
  then consider "u < 0x80" | "0x80 \<le> u" "u < 0x800" | "0x800 \<le> u" "u < 0x10000"
    | "0x10000 \<le> u" "u < 0x110000"
    by linarith
  then show ?thesis
    using assms by cases (simp_all only: encode_1 encode_2 encode_3 encode_4)
qed

lemma utf8_encode_nonempty: "utf8_encode u \<noteq> []"
  by (simp add: utf8_encode_def)

lemma RuneCount_encode:
  assumes "code_point u"
  shows "RuneCount (utf8_encode u @ r) = 1 + RuneCount r"
  using utf8_encode_nonempty [of u]
  by (simp add: RuneCount_step [of "utf8_encode u @ r"] DecodeRune_size_encode [OF assms])

lemma RuneCount_utf8_text: "list_all code_point cps \<Longrightarrow> RuneCount (utf8_text cps) = length cps"
proof (induction cps)
  case Nil
  show ?case by (simp add: utf8_text_def RuneCount_Nil)
next
  case (Cons u cps)
  then have "RuneCount (utf8_encode u @ utf8_text cps) = 1 + RuneCount (utf8_text cps)"
    by (simp add: RuneCount_encode)
  with Cons show ?case by (simp add: utf8_text_def)
qed

subsection \<open>Frames\<close>

lemma Decode_loop_frame:
  assumes d: "d \<noteq> []" and n: "int (length d) \<le> maxInt"
    and rp: "readPacket c d = Inr p"
    and r: "r = [] \<or> unat (hd r) < 0x80"
  shows "Decode_loop c 0 err (decimal (RuneCount d) @ 0x3A # d @ r) packets
         = Decode_loop c 0 None r (packets @ [p])"
proof -
  have "RuneCount d \<le> length d" by (rule RuneCount_le)
  with n have small: "int (RuneCount d) \<le> maxInt" by simp
  from d have pos: "RuneCount d \<noteq> 0" by (simp add: RuneCount_step)
  have "Decode_loop c 0 err (decimal (RuneCount d) @ 0x3A # d @ r) packets
        = Decode_loop c (int (RuneCount d)) None (d @ r) packets"
    by (subst Decode_loop.simps) (simp add: readPacketLength_frame [OF small])
  also have "\<dots> = Decode_loop c 0 None r (packets @ [p])"
    using d pos rp by (subst Decode_loop.simps) (simp add: readPacketString_frame [OF r])
  finally show ?thesis .
qed

lemma Decode_loop_Nil: "Decode_loop c psize err [] packets = (Some packets, err)"
  by (subst Decode_loop.simps) simp

definition starts_ascii :: "bytes \<Rightarrow> bool" where
  "starts_ascii r = (r = [] \<or> unat (hd r) < 0x80)"

lemma writePacket_frame:
  assumes "codec_ok c p" and "writePacket c bf p = Inr bf'"
  shows "\<exists>d. bf' = bf @ decimal (RuneCount d) @ 0x3A # d \<and> d \<noteq> []
             \<and> int (length d) \<le> maxInt \<and> readPacket c d = Inr p"
proof (cases "Option p AND BINARY c \<noteq> BINARY c")
  case True
  with assms(2) obtain d where e: "stringEncode c p = Inr d"
    and bf': "bf' = bf @ Sprintf_d (int (RuneCount d)) @ [0x3A] @ d"
    by (auto simp: writePacket_def split: sum.splits)
  from assms(1) True e have ok: "d \<noteq> []" "d ! 0 \<noteq> 0x62" "int (length d) \<le> maxInt"
    "stringDecode c d = Inr p"
    by (simp_all add: codec_ok_def)
  have "bf' = bf @ decimal (RuneCount d) @ 0x3A # d"
    using bf' by (simp add: Sprintf_d_def)
  moreover have "readPacket c d = Inr p"
    using ok by (simp add: readPacket_def)
  ultimately show ?thesis using ok by blast
next
  case False
  with assms(2) obtain d where e: "base64Encode c p = Inr d"
    and bf': "bf' = bf @ Sprintf_d (int (length d)) @ [0x3A] @ d"
    by (auto simp: writePacket_def split: sum.splits)
  from assms(1) False e have ok: "d \<noteq> []" "d ! 0 = 0x62" "int (length d) \<le> maxInt"
    "list_all (\<lambda>b. unat b < 0x80) d" "base64Decode c d = Inr p"
    by (simp_all add: codec_ok_def)
  from ok(4) have "RuneCount d = length d" by (rule RuneCount_ascii)
  with bf' have "bf' = bf @ decimal (RuneCount d) @ 0x3A # d"
    by (simp add: Sprintf_d_def)
  moreover have "readPacket c d = Inr p"
    using ok by (simp add: readPacket_def)
  ultimately show ?thesis using ok by blast
qed

lemma Encode_loop_Decode_loop:
  assumes "list_all (codec_ok c) ps" and "Encode_loop c bf ps = Inr out"
  shows "\<exists>body. out = bf @ body \<and> starts_ascii body
           \<and> (\<forall>err acc. Decode_loop c 0 err body acc
                 = (Some (acc @ ps), if ps = [] then err else None))"
  using assms
proof (induction ps arbitrary: bf)
  case Nil
  then show ?case by (simp add: Decode_loop_Nil starts_ascii_def)
next
  case (Cons p ps)
  from Cons.prems obtain bf' where w: "writePacket c bf p = Inr bf'"
    and rest: "Encode_loop c bf' ps = Inr out"
    by (auto split: sum.splits)
  from Cons.prems have ok: "codec_ok c p" and oks: "list_all (codec_ok c) ps" by simp_all
  from writePacket_frame [OF ok w] obtain d
    where bf': "bf' = bf @ decimal (RuneCount d) @ 0x3A # d" and d: "d \<noteq> []"
      and n: "int (length d) \<le> maxInt" and rp: "readPacket c d = Inr p"
    by blast
  from Cons.IH [OF oks rest] obtain body where out: "out = bf' @ body"
    and asc: "starts_ascii body"
    and dec: "\<And>err acc. Decode_loop c 0 err body acc
                 = (Some (acc @ ps), if ps = [] then err else None)"
    by blast
  let ?body = "decimal (RuneCount d) @ 0x3A # d @ body"
  have "out = bf @ ?body" using out bf' by simp
  moreover have "starts_ascii ?body"
    using decimal_hd [of "RuneCount d"] decimal_nonempty [of "RuneCount d"] is_digit_facts
    by (cases "decimal (RuneCount d)") (auto simp: starts_ascii_def)
  moreover have "Decode_loop c 0 err ?body acc = (Some (acc @ p # ps), None)" for err acc
    using Decode_loop_frame [OF d n rp, of body err acc] asc dec [of None "acc @ [p]"]
    by (simp add: starts_ascii_def)
  ultimately show ?case by auto
qed

subsection \<open>The codec of the spec fits the framing\<close>

lemma sextet_code_less: "k < 64 \<Longrightarrow> sextet_code k < 128"
  unfolding sextet_code_def by auto

lemma unat_sextet: "k < 64 \<Longrightarrow> unat (sextet k) = sextet_code k"
  using sextet_code_less [of k] by (simp add: sextet_def unat_of_nat)

lemma b64_index_sextet: "k < 64 \<Longrightarrow> b64_index (sextet k) = Some k"
  by (auto simp: b64_index_def unat_sextet sextet_code_def Let_def)

lemma sextet_ascii: "k < 64 \<Longrightarrow> unat (sextet k) < 0x80"
  using sextet_code_less [of k] by (simp add: unat_sextet)

lemma sextet_not_pad: "k < 64 \<Longrightarrow> sextet k \<noteq> 0x3D"
proof
  assume "k < 64" and "sextet k = 0x3D"
  then have "unat (sextet k) = 61" by simp
  with \<open>k < 64\<close> show False by (simp add: unat_sextet sextet_code_def split: if_splits)
qed

lemma byte_lt: "unat (a :: byte) < 256"
  using unsigned_less [of a, where ?'a = nat] by simp

lemma join_div: "lo < m \<Longrightarrow> (hi * m + lo) div m = (hi :: nat)"
  by simp

lemma join_mod: "lo < m \<Longrightarrow> (hi * m + lo) mod m = (lo :: nat)"
  by simp

lemma sextets_less:
  fixes a b c :: nat
  assumes "a < 256" and "b < 256" and "c < 256"
  shows "a div 4 < 64" and "a mod 4 * 16 < 64" and "a mod 4 * 16 + b div 16 < 64"
    and "b mod 16 * 4 < 64" and "b mod 16 * 4 + c div 64 < 64" and "c mod 64 < 64"
proof -
  have "a mod 4 < 4" "b mod 16 < 16" by simp_all
  moreover from assms have "a div 4 < 64" "b div 16 < 16" "c div 64 < 4" by simp_all
  ultimately show "a div 4 < 64" and "a mod 4 * 16 < 64" and "a mod 4 * 16 + b div 16 < 64"
    and "b mod 16 * 4 < 64" and "b mod 16 * 4 + c div 64 < 64" and "c mod 64 < 64"
    by simp_all
qed

lemma join_first:
  fixes a b :: nat
  assumes "b < 256"
  shows "a div 4 * 4 + (a mod 4 * 16 + b div 16) div 16 = a"
proof -
  from assms have "b div 16 < 16" by simp
  then have "(a mod 4 * 16 + b div 16) div 16 = a mod 4" by (rule join_div)
  then show ?thesis by simp
qed

lemma join_second:
  fixes a b c :: nat
  assumes "b < 256" and "c < 256"
  shows "(a mod 4 * 16 + b div 16) mod 16 * 16 + (b mod 16 * 4 + c div 64) div 4 = b"
proof -
  from assms have "b div 16 < 16" "c div 64 < 4" by simp_all
  then have "(a mod 4 * 16 + b div 16) mod 16 = b div 16"
    and "(b mod 16 * 4 + c div 64) div 4 = b mod 16"
    by (simp_all only: join_mod join_div)
  then show ?thesis by simp
qed

lemma join_third:
  fixes b c :: nat
  assumes "c < 256"
  shows "(b mod 16 * 4 + c div 64) mod 4 * 64 + c mod 64 = c"
proof -
  from assms have "c div 64 < 4" by simp
  then have "(b mod 16 * 4 + c div 64) mod 4 = c div 64" by (rule join_mod)
  then show ?thesis by simp
qed

lemma of_nat_byte: "n = unat a \<Longrightarrow> (of_nat n :: byte) = a"
  by simp

lemma b64_decode_one:
  "b64_decode [sextet (unat a div 4), sextet (unat a mod 4 * 16), 0x3D, 0x3D] = Some [a]"
proof -
  have a: "unat a < 256" by (rule byte_lt)
  have k: "unat a div 4 < 64" "unat a mod 4 * 16 < 64"
    using sextets_less [OF a a a] by simp_all
  have "unat a div 4 * 4 + (unat a mod 4 * 16 + 0 div 16) div 16 = unat a"
    by (rule join_first) simp
  then have "unat a div 4 * 4 + unat a mod 4 * 16 div 16 = unat a" by simp
  then have "(of_nat (unat a div 4 * 4 + unat a mod 4 * 16 div 16) :: byte) = a"
    by (intro of_nat_byte)
  then show ?thesis
    by (simp add: b64_index_sextet [OF k(1)] b64_index_sextet [OF k(2)])
qed

lemma b64_decode_two:
  "b64_decode [sextet (unat a div 4), sextet (unat a mod 4 * 16 + unat b div 16),
               sextet (unat b mod 16 * 4), 0x3D] = Some [a, b]"
proof -
  have a: "unat a < 256" and b: "unat b < 256" by (rule byte_lt)+
  have k: "unat a div 4 < 64" "unat a mod 4 * 16 + unat b div 16 < 64" "unat b mod 16 * 4 < 64"
    using sextets_less [OF a b b] by simp_all
  have "unat a div 4 * 4 + (unat a mod 4 * 16 + unat b div 16) div 16 = unat a"
    using b by (rule join_first)
  then have x: "(of_nat (unat a div 4 * 4 + (unat a mod 4 * 16 + unat b div 16) div 16) :: byte) = a"
    by (intro of_nat_byte)
  have "(unat a mod 4 * 16 + unat b div 16) mod 16 * 16 + (unat b mod 16 * 4 + 0 div 64) div 4
      = unat b"
    using b by (rule join_second) simp
  then have "(unat a mod 4 * 16 + unat b div 16) mod 16 * 16 + unat b mod 16 * 4 div 4 = unat b"
    by simp
  then have y: "(of_nat ((unat a mod 4 * 16 + unat b div 16) mod 16 * 16
      + unat b mod 16 * 4 div 4) :: byte) = b"
    by (intro of_nat_byte)
  from sextet_not_pad [OF k(3)] x y show ?thesis
    by (simp add: b64_index_sextet [OF k(1)] b64_index_sextet [OF k(2)]
        b64_index_sextet [OF k(3)])
qed

lemma b64_decode_three:
  assumes "b64_decode rest = Some bs"
  shows "b64_decode ([sextet (unat a div 4), sextet (unat a mod 4 * 16 + unat b div 16),
               sextet (unat b mod 16 * 4 + unat c div 64), sextet (unat c mod 64)] @ rest)
         = Some (a # b # c # bs)"
proof -
  have a: "unat a < 256" and b: "unat b < 256" and c: "unat c < 256" by (rule byte_lt)+
  have k: "unat a div 4 < 64" "unat a mod 4 * 16 + unat b div 16 < 64"
    "unat b mod 16 * 4 + unat c div 64 < 64" "unat c mod 64 < 64"
    using sextets_less [OF a b c] by simp_all
  have "unat a div 4 * 4 + (unat a mod 4 * 16 + unat b div 16) div 16 = unat a"
    using b by (rule join_first)
  then have x: "(of_nat (unat a div 4 * 4 + (unat a mod 4 * 16 + unat b div 16) div 16) :: byte) = a"
    by (intro of_nat_byte)
  have "(unat a mod 4 * 16 + unat b div 16) mod 16 * 16
      + (unat b mod 16 * 4 + unat c div 64) div 4 = unat b"
    using b c by (rule join_second)
  then have y: "(of_nat ((unat a mod 4 * 16 + unat b div 16) mod 16 * 16
      + (unat b mod 16 * 4 + unat c div 64) div 4) :: byte) = b"
    by (intro of_nat_byte)
  have "(unat b mod 16 * 4 + unat c div 64) mod 4 * 64 + unat c mod 64 = unat c"
    using c by (rule join_third)
  then have z: "(of_nat ((unat b mod 16 * 4 + unat c div 64) mod 4 * 64 + unat c mod 64) :: byte)
      = c"
    by (intro of_nat_byte)
  from sextet_not_pad [OF k(3)] sextet_not_pad [OF k(4)] x y z assms show ?thesis
    by (simp add: b64_index_sextet [OF k(1)] b64_index_sextet [OF k(2)]
        b64_index_sextet [OF k(3)] b64_index_sextet [OF k(4)])
qed

lemma b64_decode_encode: "b64_decode (b64_encode d) = Some d"
proof (induction d rule: b64_encode.induct)
  case 1
  show ?case by simp
next
  case (2 a)
  show ?case using b64_decode_one [of a] by simp
next
  case (3 a b)
  show ?case using b64_decode_two [of a b] by simp
next
  case (4 a b c rest)
  show ?case using b64_decode_three [OF 4, of a b c] by simp
qed

lemma b64_encode_ascii: "list_all (\<lambda>b. unat b < 0x80) (b64_encode d)"
proof (induction d rule: b64_encode.induct)
  case 1
  show ?case by simp
next
  case (2 a)
  have a: "unat a < 256" by (rule byte_lt)
  from sextets_less [OF a a a] show ?case by (simp add: sextet_ascii)
next
  case (3 a b)
  have a: "unat a < 256" and b: "unat b < 256" by (rule byte_lt)+
  from sextets_less [OF a b b] show ?case by (simp add: sextet_ascii)
next
  case (4 a b c rest)
  have a: "unat a < 256" and b: "unat b < 256" and c: "unat c < 256" by (rule byte_lt)+
  from sextets_less [OF a b c] 4 show ?case by (simp add: sextet_ascii)
qed

lemma b64_encode_length: "length (b64_encode d) \<le> 4 + 2 * length d"
  by (induction d rule: b64_encode.induct) simp_all

text \<open>
  A packet as the spec has it: one of the seven types, the option flag clear or
  \<open>BINARY\<close>, and a payload whose encoding fits in a Go slice.
\<close>

definition spec_packet :: "Packet \<Rightarrow> bool" where
  "spec_packet p =
     (unat (Type p) \<le> 6 \<and> (Option p = 0 \<or> Option p = spec_BINARY)
      \<and> 2 * int (length (Data p)) + 6 \<le> maxInt)"

lemma spec_string_codec_ok:
  assumes "Option p = 0" and "unat (Type p) \<le> 6" and "int (length (Data p)) < maxInt"
  shows "codec_ok spec_codec p"
proof (cases "Valid (Data p)")
  case False
  with assms(1) show ?thesis
    by (simp add: codec_ok_def spec_codec_def spec_stringEncode_def spec_BINARY_def)
next
  case True
  have t: "unat (0x30 + Type p) = 0x30 + unat (Type p)"
    using assms(2) by (simp add: unat_word_ariths)
  have nb: "0x30 + Type p \<noteq> 0x62"
  proof
    assume "0x30 + Type p = 0x62"
    then have "unat (0x30 + Type p) = 98" by simp
    with t assms(2) show False by simp
  qed
  have same: "\<lparr>Type = Type p, Data = Data p, Option = 0\<rparr> = p"
    using assms(1) by simp
  show ?thesis
    using assms True t nb same
    by (simp add: codec_ok_def spec_codec_def spec_stringEncode_def spec_stringDecode_def
        spec_BINARY_def)
qed

lemma spec_binary_codec_ok:
  assumes "Option p = spec_BINARY" and "unat (Type p) \<le> 6"
    and "2 * int (length (Data p)) + 6 \<le> maxInt"
  shows "codec_ok spec_codec p"
proof -
  have t: "unat (0x30 + Type p) = 0x30 + unat (Type p)"
    using assms(2) by (simp add: unat_word_ariths)
  have same: "\<lparr>Type = Type p, Data = Data p, Option = spec_BINARY\<rparr> = p"
    using assms(1) by simp
  have "length (b64_encode (Data p)) \<le> 4 + 2 * length (Data p)"
    by (rule b64_encode_length)
  with assms(3) have len: "int (length (b64_encode (Data p))) + 2 \<le> maxInt"
    by simp
  show ?thesis
    using assms(1,2) t same len b64_encode_ascii [of "Data p"]
    by (simp add: codec_ok_def spec_codec_def spec_base64Encode_def spec_base64Decode_def
        spec_BINARY_def b64_decode_encode)
qed

lemma spec_codec_ok: "spec_packet p \<Longrightarrow> codec_ok spec_codec p"
  unfolding spec_packet_def
  using spec_string_codec_ok [of p] spec_binary_codec_ok [of p] by auto

text \<open>
  So the framing carries every non-empty batch of such packets through the codec of the
  spec unchanged.
\<close>

lemma spec_Decode_Encode:
  assumes "list_all spec_packet packets" and "Encode spec_codec packets = Inr out"
  shows "Decode spec_codec out = (Some packets, None)"
proof -
  from assms(1) have ok: "list_all (codec_ok spec_codec) packets"
    by (induction packets) (simp_all add: spec_codec_ok)
  from assms(2) have ne: "packets \<noteq> []" and enc: "Encode_loop spec_codec [] packets = Inr out"
    by (auto simp: Encode_def split: if_splits)
  from Encode_loop_Decode_loop [OF ok enc] ne show ?thesis
    by (auto simp: Decode_def)
qed

subsection \<open>Unterminated input\<close>

lemma readPacketLength_loop_no_colon:
  "\<forall>b \<in> set input. b \<noteq> 0x3A \<Longrightarrow>
   readPacketLength_loop input i = (0, [], Some ErrInvalidPayloadString)"
proof (induction input i rule: readPacketLength_loop.induct)
  case (1 input i)
  show ?case
  proof (cases "i < length input")
    case True
    with "1.prems" have "input ! i \<noteq> 0x3A" by simp
    with True 1 show ?thesis
      by (subst readPacketLength_loop.simps) simp
  next
    case False
    then show ?thesis
      by (subst readPacketLength_loop.simps) simp
  qed
qed

text \<open>An input without any colon, such as a bare run of digits, is an error.\<close>

lemma Decode_unterminated:
  assumes "input \<noteq> []" and "\<forall>b \<in> set input. b \<noteq> 0x3A"
  shows "Decode c input = (Some [], Some ErrInvalidPayloadString)"
  unfolding Decode_def using assms
  by (subst Decode_loop.simps)
    (simp add: readPacketLength_def readPacketLength_loop_no_colon Decode_loop_Nil)

subsection \<open>The claims about the payload codec\<close>

lemmas eval_simps =
  Decode_def Decode_loop.simps readPacketLength_def readPacketLength_loop.simps
  Atoi_def is_digit_def digits_value_def maxInt_def Let_def
  readPacketString_def readPacketString_loop.simps DecodeRune_size_def utf8_first_def
  readPacket_def RuneCount.simps decimal.simps digit_def Sprintf_d_def
  Encode_def writePacket_def codec_ok_def

lemmas spec_simps =
  spec_codec_def spec_BINARY_def spec_stringEncode_def spec_stringDecode_def
  spec_base64Encode_def spec_base64Decode_def Valid.simps b64_index_def sextet_def
  sextet_code_def

text \<open>
  C10. \<open>Encode\<close> called with no packet returns the error \<open>input packets is empty\<close>.
\<close>

theorem Encode_empty: "Encode c [] = Inl ErrEmptyPackets"
  by (simp add: Encode_def)

text \<open>
  C5. For a packet whose \<open>BINARY\<close> option is clear \<open>writePacket\<close> appends the decimal
  number of runes of the string encoder's output, a colon and that output; when the
  output is the UTF-8 text of a list of code points, the number written is the number of
  code points. For a packet whose \<open>BINARY\<close> option is set it appends the decimal number
  of bytes of the base64 encoder's output, a colon and that output. The character U+1F600
  is the four bytes \<open>F0 9F 98 80\<close>: an encoded form that consists of this character alone
  is written after \<open>1:\<close> in string mode, and the same four bytes after \<open>4:\<close> in byte mode.
\<close>

theorem writePacket_length_prefix:
  "(writePacket c bf packet = Inr bf' \<longrightarrow>
      (if Option packet AND BINARY c \<noteq> BINARY c
       then \<exists>d. stringEncode c packet = Inr d
              \<and> bf' = bf @ Sprintf_d (int (RuneCount d)) @ [0x3A] @ d
       else \<exists>d. base64Encode c packet = Inr d
              \<and> bf' = bf @ Sprintf_d (int (length d)) @ [0x3A] @ d))
   \<and> (Option packet AND BINARY c \<noteq> BINARY c \<longrightarrow> stringEncode c packet = Inr data \<longrightarrow>
      writePacket c bf packet = Inr (bf @ Sprintf_d (int (RuneCount data)) @ [0x3A] @ data))
   \<and> (Option packet AND BINARY c \<noteq> BINARY c \<longrightarrow> list_all code_point cps \<longrightarrow>
        stringEncode c packet = Inr (utf8_text cps) \<longrightarrow>
      writePacket c bf packet = Inr (bf @ Sprintf_d (int (length cps)) @ [0x3A] @ utf8_text cps))
   \<and> (Option packet AND BINARY c = BINARY c \<longrightarrow> base64Encode c packet = Inr data \<longrightarrow>
      writePacket c bf packet = Inr (bf @ Sprintf_d (int (length data)) @ [0x3A] @ data))
   \<and> utf8_text [0x1F600] = [0xF0, 0x9F, 0x98, 0x80]
   \<and> (Option packet AND BINARY c \<noteq> BINARY c \<longrightarrow>
        stringEncode c packet = Inr [0xF0, 0x9F, 0x98, 0x80] \<longrightarrow>
      writePacket c bf packet = Inr (bf @ [0x31, 0x3A, 0xF0, 0x9F, 0x98, 0x80]))
   \<and> (Option packet AND BINARY c = BINARY c \<longrightarrow>
        base64Encode c packet = Inr [0xF0, 0x9F, 0x98, 0x80] \<longrightarrow>
      writePacket c bf packet = Inr (bf @ [0x34, 0x3A, 0xF0, 0x9F, 0x98, 0x80]))"
proof -
  have ex: "utf8_text [0x1F600] = [0xF0, 0x9F, 0x98, 0x80]"
    by (simp add: utf8_text_def utf8_encode_def b8_def)
  have "list_all code_point [0x1F600]"
    by (simp add: code_point_def)
  then have "RuneCount (utf8_text [0x1F600]) = 1"
    using RuneCount_utf8_text [of "[0x1F600]"] by simp
  then have one: "RuneCount [0xF0, 0x9F, 0x98, 0x80] = 1"
    by (simp only: ex)
  have d1: "Sprintf_d 1 = [0x31]" and d4: "Sprintf_d 4 = [0x34]"
    by (simp_all add: Sprintf_d_def decimal.simps digit_def)
  have written: "writePacket c bf packet = Inr bf' \<longrightarrow>
      (if Option packet AND BINARY c \<noteq> BINARY c
       then \<exists>d. stringEncode c packet = Inr d
              \<and> bf' = bf @ Sprintf_d (int (RuneCount d)) @ [0x3A] @ d
       else \<exists>d. base64Encode c packet = Inr d
              \<and> bf' = bf @ Sprintf_d (int (length d)) @ [0x3A] @ d)"
  proof (cases "Option packet AND BINARY c \<noteq> BINARY c")
    case True
    then show ?thesis
      by (cases "stringEncode c packet") (simp_all add: writePacket_def)
  next
    case False
    then show ?thesis
      by (cases "base64Encode c packet") (simp_all add: writePacket_def)
  qed
  have "(Option packet AND BINARY c \<noteq> BINARY c \<longrightarrow> stringEncode c packet = Inr data \<longrightarrow>
      writePacket c bf packet = Inr (bf @ Sprintf_d (int (RuneCount data)) @ [0x3A] @ data))
   \<and> (Option packet AND BINARY c \<noteq> BINARY c \<longrightarrow> list_all code_point cps \<longrightarrow>
        stringEncode c packet = Inr (utf8_text cps) \<longrightarrow>
      writePacket c bf packet = Inr (bf @ Sprintf_d (int (length cps)) @ [0x3A] @ utf8_text cps))
   \<and> (Option packet AND BINARY c = BINARY c \<longrightarrow> base64Encode c packet = Inr data \<longrightarrow>
      writePacket c bf packet = Inr (bf @ Sprintf_d (int (length data)) @ [0x3A] @ data))
   \<and> utf8_text [0x1F600] = [0xF0, 0x9F, 0x98, 0x80]
   \<and> (Option packet AND BINARY c \<noteq> BINARY c \<longrightarrow>
        stringEncode c packet = Inr [0xF0, 0x9F, 0x98, 0x80] \<longrightarrow>
      writePacket c bf packet = Inr (bf @ [0x31, 0x3A, 0xF0, 0x9F, 0x98, 0x80]))
   \<and> (Option packet AND BINARY c = BINARY c \<longrightarrow>
        base64Encode c packet = Inr [0xF0, 0x9F, 0x98, 0x80] \<longrightarrow>
      writePacket c bf packet = Inr (bf @ [0x34, 0x3A, 0xF0, 0x9F, 0x98, 0x80]))"
    by (simp add: writePacket_def RuneCount_utf8_text ex one d1 d4)
  with written show ?thesis by (rule conjI)
qed

text \<open>
  With the codec that returns the payload as it is, the payload U+1F600 is written after
  \<open>1:\<close> as a string packet and after \<open>4:\<close> as a binary packet. With the codec of the spec
  the encoded form of the string MESSAGE packet is the type digit \<open>4\<close> and the character,
  two code points in five bytes, written after \<open>2:\<close>; the binary packet is ten bytes of
  base64 text, written after \<open>10:\<close>.
\<close>

theorem writePacket_length_prefix_witness:
  "writePacket raw_codec [] \<lparr>Type = 4, Data = [0xF0, 0x9F, 0x98, 0x80], Option = 0\<rparr>
     = Inr [0x31, 0x3A, 0xF0, 0x9F, 0x98, 0x80]
   \<and> writePacket raw_codec [] \<lparr>Type = 4, Data = [0xF0, 0x9F, 0x98, 0x80], Option = 1\<rparr>
     = Inr [0x34, 0x3A, 0xF0, 0x9F, 0x98, 0x80]
   \<and> list_all code_point [0x34, 0x1F600]
   \<and> stringEncode spec_codec \<lparr>Type = 4, Data = [0xF0, 0x9F, 0x98, 0x80], Option = 0\<rparr>
     = Inr (utf8_text [0x34, 0x1F600])
   \<and> writePacket spec_codec [] \<lparr>Type = 4, Data = [0xF0, 0x9F, 0x98, 0x80], Option = 0\<rparr>
     = Inr [0x32, 0x3A, 0x34, 0xF0, 0x9F, 0x98, 0x80]
   \<and> base64Encode spec_codec \<lparr>Type = 4, Data = [0xF0, 0x9F, 0x98, 0x80], Option = 1\<rparr>
     = Inr [0x62, 0x34, 0x38, 0x4A, 0x2B, 0x59, 0x67, 0x41, 0x3D, 0x3D]
   \<and> writePacket spec_codec [] \<lparr>Type = 4, Data = [0xF0, 0x9F, 0x98, 0x80], Option = 1\<rparr>
     = Inr [0x31, 0x30, 0x3A, 0x62, 0x34, 0x38, 0x4A, 0x2B, 0x59, 0x67, 0x41, 0x3D, 0x3D]"
proof -
  let ?s = "\<lparr>Type = 4, Data = [0xF0, 0x9F, 0x98, 0x80], Option = 0\<rparr>"
  let ?b = "\<lparr>Type = 4, Data = [0xF0, 0x9F, 0x98, 0x80], Option = 1\<rparr>"
  have raw_clear: "Option ?s AND BINARY raw_codec \<noteq> BINARY raw_codec"
    and raw_set: "Option ?b AND BINARY raw_codec = BINARY raw_codec"
    and raw_se: "stringEncode raw_codec ?s = Inr [0xF0, 0x9F, 0x98, 0x80]"
    and raw_be: "base64Encode raw_codec ?b = Inr [0xF0, 0x9F, 0x98, 0x80]"
    by (simp_all add: raw_codec_def)
  have raw_s: "writePacket raw_codec [] ?s = Inr [0x31, 0x3A, 0xF0, 0x9F, 0x98, 0x80]"
    using writePacket_length_prefix [where bf = "[]", THEN conjunct2, THEN conjunct2, THEN conjunct2,
        THEN conjunct2, THEN conjunct2, THEN conjunct1, rule_format, OF raw_clear raw_se]
    by simp
  have raw_b: "writePacket raw_codec [] ?b = Inr [0x34, 0x3A, 0xF0, 0x9F, 0x98, 0x80]"
    using writePacket_length_prefix [where bf = "[]", THEN conjunct2, THEN conjunct2, THEN conjunct2,
        THEN conjunct2, THEN conjunct2, THEN conjunct2, rule_format, OF raw_set raw_be]
    by simp
  have cps: "list_all code_point [0x34, 0x1F600]"
    by (simp add: code_point_def)
  have enc: "utf8_text [0x34, 0x1F600] = [0x34, 0xF0, 0x9F, 0x98, 0x80]"
    by (simp add: utf8_text_def utf8_encode_def b8_def)
  have se: "stringEncode spec_codec ?s = Inr (utf8_text [0x34, 0x1F600])"
    unfolding enc by (simp add: eval_simps spec_simps)
  have flag_clear: "Option ?s AND BINARY spec_codec \<noteq> BINARY spec_codec"
    by (simp add: spec_codec_def spec_BINARY_def)
  have d2: "Sprintf_d 2 = [0x32]"
    by (simp add: Sprintf_d_def decimal.simps digit_def)
  have spec_s: "writePacket spec_codec [] ?s = Inr [0x32, 0x3A, 0x34, 0xF0, 0x9F, 0x98, 0x80]"
    using writePacket_length_prefix [where bf = "[]", THEN conjunct2, THEN conjunct2, THEN conjunct1,
        rule_format, OF flag_clear cps se]
    by (simp add: enc d2)
  have be: "base64Encode spec_codec ?b
      = Inr [0x62, 0x34, 0x38, 0x4A, 0x2B, 0x59, 0x67, 0x41, 0x3D, 0x3D]"
    by (simp add: eval_simps spec_simps)
  have flag_set: "Option ?b AND BINARY spec_codec = BINARY spec_codec"
    by (simp add: spec_codec_def spec_BINARY_def)
  have d10: "Sprintf_d 10 = [0x31, 0x30]"
    by (simp add: Sprintf_d_def decimal.simps digit_def)
  have spec_b: "writePacket spec_codec [] ?b
      = Inr [0x31, 0x30, 0x3A, 0x62, 0x34, 0x38, 0x4A, 0x2B, 0x59, 0x67, 0x41, 0x3D, 0x3D]"
    using writePacket_length_prefix [where bf = "[]", THEN conjunct2, THEN conjunct2, THEN conjunct2,
        THEN conjunct1, rule_format, OF flag_set be]
    by (simp add: d10)
  show ?thesis
    by (intro conjI) (rule raw_s raw_b cps se spec_s be spec_b)+
qed

text \<open>
  C4. Let the single-packet codec round-trip each packet of a list (\<open>codec_ok\<close>). If
  \<open>Encode\<close> accepts the list, which it does only when the list is not empty, then
  \<open>Decode\<close> applied to the bytes \<open>Encode\<close> returned yields exactly that list, in the same
  order, and no error.
\<close>

theorem Decode_Encode:
  assumes "list_all (codec_ok c) packets" and "Encode c packets = Inr out"
  shows "Decode c out = (Some packets, None)"
proof -
  from assms(2) have ne: "packets \<noteq> []" and enc: "Encode_loop c [] packets = Inr out"
    by (auto simp: Encode_def split: if_splits)
  from Encode_loop_Decode_loop [OF assms(1) enc] ne show ?thesis
    by (auto simp: Decode_def)
qed

theorem Decode_Encode_witness:
  "list_all (codec_ok spec_codec)
     [\<lparr>Type = 4, Data = [0xF0, 0x9F, 0x98, 0x80], Option = 0\<rparr>,
      \<lparr>Type = 4, Data = [104, 101, 108, 108, 111], Option = 1\<rparr>]
   \<and> Encode spec_codec
     [\<lparr>Type = 4, Data = [0xF0, 0x9F, 0x98, 0x80], Option = 0\<rparr>,
      \<lparr>Type = 4, Data = [104, 101, 108, 108, 111], Option = 1\<rparr>]
     = Inr [50, 58, 52, 240, 159, 152, 128,
            49, 48, 58, 98, 52, 97, 71, 86, 115, 98, 71, 56, 61]
   \<and> Decode spec_codec [50, 58, 52, 240, 159, 152, 128,
            49, 48, 58, 98, 52, 97, 71, 86, 115, 98, 71, 56, 61]
     = (Some [\<lparr>Type = 4, Data = [0xF0, 0x9F, 0x98, 0x80], Option = 0\<rparr>,
              \<lparr>Type = 4, Data = [104, 101, 108, 108, 111], Option = 1\<rparr>], None)"
proof -
  have ok: "list_all (codec_ok spec_codec)
     [\<lparr>Type = 4, Data = [0xF0, 0x9F, 0x98, 0x80], Option = 0\<rparr>,
      \<lparr>Type = 4, Data = [104, 101, 108, 108, 111], Option = 1\<rparr>]"
    by (simp add: eval_simps spec_simps)
  have enc: "Encode spec_codec
     [\<lparr>Type = 4, Data = [0xF0, 0x9F, 0x98, 0x80], Option = 0\<rparr>,
      \<lparr>Type = 4, Data = [104, 101, 108, 108, 111], Option = 1\<rparr>]
     = Inr [50, 58, 52, 240, 159, 152, 128,
            49, 48, 58, 98, 52, 97, 71, 86, 115, 98, 71, 56, 61]"
    by (simp add: eval_simps spec_simps)
  have dec: "Decode spec_codec [50, 58, 52, 240, 159, 152, 128,
            49, 48, 58, 98, 52, 97, 71, 86, 115, 98, 71, 56, 61]
     = (Some [\<lparr>Type = 4, Data = [0xF0, 0x9F, 0x98, 0x80], Option = 0\<rparr>,
              \<lparr>Type = 4, Data = [104, 101, 108, 108, 111], Option = 1\<rparr>], None)"
    by (rule Decode_Encode [OF ok enc])
  show ?thesis
    by (intro conjI) (rule ok enc dec)+
qed

text \<open>
  C6. The input \<open>5:\<close> declares five runes and ends right after the colon; \<open>Decode\<close>
  returns an empty packet list and no error, whatever the single-packet codec. The input
  \<open>5:4a\<close> has two runes where five are declared; with the codec of the spec \<open>Decode\<close>
  returns the MESSAGE packet \<open>a\<close> and no error.
\<close>

theorem Decode_premature_end:
  "Decode c [0x35, 0x3A] = (Some [], None)
   \<and> Decode spec_codec [0x35, 0x3A, 0x34, 0x61]
       = (Some [\<lparr>Type = 4, Data = [0x61], Option = 0\<rparr>], None)"
  by (simp add: eval_simps spec_simps)

section \<open>Sending\<close>

text \<open>
  C7. \<open>Send\<close> gets past its guard exactly when the tick is 0. It then builds the MESSAGE
  packet and calls \<open>write\<close> on the backup transport when there is one, and on the primary
  transport when there is no backup, and returns what \<open>write\<close> returned; the write is
  made whether or not it reports an error. In particular, whenever \<open>Send\<close> returns no
  error it has made exactly that one write: on the backup when the socket has one, on the
  primary otherwise.
\<close>

theorem Send_routes_to_backup_first:
  "(fst (Send e p message tr) = None \<longrightarrow>
      heartbeat p = 0
      \<and> ((\<exists>b. transportBackup p = Some b
               \<and> snd (Send e p message tr) = tr @ [TWrite b (NewPacket e MESSAGE message)])
          \<or> (transportBackup p = None
               \<and> (\<exists>t. transportPrimary p = Some t
                      \<and> snd (Send e p message tr) = tr @ [TWrite t (NewPacket e MESSAGE message)]))))
   \<and> (heartbeat p = 0 \<longrightarrow> transportBackup p = Some b \<longrightarrow>
        Send e p message tr
          = (map_option ErrTransport (t_write e b (NewPacket e MESSAGE message)),
             tr @ [TWrite b (NewPacket e MESSAGE message)]))
   \<and> (heartbeat p = 0 \<longrightarrow> transportBackup p = None \<longrightarrow> transportPrimary p = Some t \<longrightarrow>
        Send e p message tr
          = (map_option ErrTransport (t_write e t (NewPacket e MESSAGE message)),
             tr @ [TWrite t (NewPacket e MESSAGE message)]))"
  by (auto simp: Send_def isHeartbeat_def Let_def split: option.splits if_splits)

text \<open>
  Both branches at work: a socket with the backup 1 and the primary 2 writes to 1, also
  when the write fails; after the UPGRADE packet only the primary 2 is left and \<open>Send\<close>
  writes to 2.
\<close>

theorem Send_routes_to_backup_first_witness:
  "heartbeat (socket_at 0 [1, 2]) = 0
   \<and> transportBackup (socket_at 0 [1, 2]) = Some 1
   \<and> transportPrimary (socket_at 0 [1, 2]) = Some 2
   \<and> Send (quiet_env 0) (socket_at 0 [1, 2]) [104, 105] []
       = (None, [TWrite 1 \<lparr>Type = 4, Data = [104, 105], Option = 0\<rparr>])
   \<and> Send ((quiet_env 0)\<lparr>t_write := (\<lambda>t pk. Some ''boom'')\<rparr>) (socket_at 0 [1, 2]) [104, 105] []
       = (Some (ErrTransport ''boom''), [TWrite 1 \<lparr>Type = 4, Data = [104, 105], Option = 0\<rparr>])
   \<and> heartbeat (upgraded (socket_at 0 [1, 2])) = 0
   \<and> transportBackup (upgraded (socket_at 0 [1, 2])) = None
   \<and> transportPrimary (upgraded (socket_at 0 [1, 2])) = Some 2
   \<and> Send (quiet_env 0) (upgraded (socket_at 0 [1, 2])) [104, 105] []
       = (None, [TWrite 2 \<lparr>Type = 4, Data = [104, 105], Option = 0\<rparr>])"
proof -
  let ?p = "socket_at 0 [1, 2]"
  have h: "heartbeat ?p = 0" and b: "transportBackup ?p = Some 1"
    and t: "transportPrimary ?p = Some 2"
    by (simp_all add: socket_at_def attach_def setTransport_def newSocket_def quiet_env_def)
  have h': "heartbeat (upgraded ?p) = 0" and b': "transportBackup (upgraded ?p) = None"
    and t': "transportPrimary (upgraded ?p) = Some 2"
    by (simp_all add: upgraded_def accept_def UPGRADE_def CLOSE_def
        socket_at_def attach_def setTransport_def newSocket_def quiet_env_def)
  have pk: "NewPacket (quiet_env 0) MESSAGE [104, 105] = \<lparr>Type = 4, Data = [104, 105], Option = 0\<rparr>"
    "NewPacket ((quiet_env 0)\<lparr>t_write := (\<lambda>t pk. Some ''boom'')\<rparr>) MESSAGE [104, 105]
       = \<lparr>Type = 4, Data = [104, 105], Option = 0\<rparr>"
    by (simp_all add: quiet_env_def NewPacketCustom_def MESSAGE_def)
  have s1: "Send (quiet_env 0) ?p [104, 105] []
       = (None, [TWrite 1 \<lparr>Type = 4, Data = [104, 105], Option = 0\<rparr>])"
    using Send_routes_to_backup_first [where e = "quiet_env 0" and message = "[104, 105]"
        and tr = "[]", THEN conjunct2, THEN conjunct1, rule_format, OF h b]
    by (simp add: pk) (simp add: quiet_env_def)
  have s2: "Send ((quiet_env 0)\<lparr>t_write := (\<lambda>t pk. Some ''boom'')\<rparr>) ?p [104, 105] []
       = (Some (ErrTransport ''boom''), [TWrite 1 \<lparr>Type = 4, Data = [104, 105], Option = 0\<rparr>])"
    using Send_routes_to_backup_first
        [where e = "(quiet_env 0)\<lparr>t_write := (\<lambda>t pk. Some ''boom'')\<rparr>"
        and message = "[104, 105]" and tr = "[]",
        THEN conjunct2, THEN conjunct1, rule_format, OF h b]
    by (simp add: pk)
  have s3: "Send (quiet_env 0) (upgraded ?p) [104, 105] []
       = (None, [TWrite 2 \<lparr>Type = 4, Data = [104, 105], Option = 0\<rparr>])"
    using Send_routes_to_backup_first [where e = "quiet_env 0" and message = "[104, 105]"
        and tr = "[]", THEN conjunct2, THEN conjunct2, rule_format, OF h' b' t']
    by (simp add: pk) (simp add: quiet_env_def)
  show ?thesis
    by (intro conjI) (rule h b t s1 s2 h' b' t' s3)+
qed

text \<open>\<open>Send\<close> returns the closed error exactly when the tick is not 0.\<close>

lemma Send_closed_error_iff:
  "fst (Send e p message tr) = Some (ErrSocketClosed (sock_id p)) \<longleftrightarrow> heartbeat p \<noteq> 0"
  by (auto simp: Send_def isHeartbeat_def Let_def split: option.splits)

text \<open>
  So a socket created at clock 100 is refused also while it holds both transports, and
  nothing is written to either of them.
\<close>

lemma Send_live_upgrade_window:
  "Send (quiet_env 150) (socket_at 100 [1, 2]) [104, 105] [] = (Some (ErrSocketClosed ''s1''), [])"
  by (simp add: Send_def isHeartbeat_def socket_at_def attach_def setTransport_def
      newSocket_def quiet_env_def)

text \<open>
  C1. \<open>isHeartbeat\<close> compares the tick with 0 the wrong way round, so \<open>Send\<close> refuses
  with the closed error exactly when the tick is not 0: a socket created at clock 100 with
  a transport attached is refused, and the same socket with tick 0 has its message
  written to the transport.
\<close>

theorem Send_refused_on_live_socket:
  "Send (quiet_env 100) (socket_at 100 [1]) [104, 105] [] = (Some (ErrSocketClosed ''s1''), [])
   \<and> Send (quiet_env 100) ((socket_at 100 [1])\<lparr>heartbeat := 0\<rparr>) [104, 105] []
       = (None, [TWrite 1 \<lparr>Type = 4, Data = [104, 105], Option = 0\<rparr>])"
  by (simp add: Send_def isHeartbeat_def socket_at_def attach_def setTransport_def
      newSocket_def quiet_env_def NewPacketCustom_def MESSAGE_def)

section \<open>Closing\<close>

text \<open>
  \<open>Close\<close> does nothing when the tick is not 0, and runs its body, firing every close
  handler, whenever the tick is 0.
\<close>

lemma Close_live_noop: "heartbeat p \<noteq> 0 \<Longrightarrow> Close e p tr = (p, tr)"
  by (simp add: Close_def isHeartbeat_def)

lemma Close_zero_fires:
  "heartbeat p = 0 \<Longrightarrow>
   \<exists>reason tr'. Close e p tr = (p, tr' @ map (\<lambda>fn. CloseFired fn reason) (closeHandlers p))"
  by (auto simp: Close_def isHeartbeat_def Let_def split: prod.splits)

text \<open>
  C2. On a socket created at clock 100 with one close handler and one transport, \<open>Close\<close>
  returns at its guard: the tick stays 100, the transport is not closed and the handler
  is not called, however often \<open>Close\<close> runs. On the same socket with tick 0 every
  \<open>Close\<close> runs the whole body, so two calls fire the handler twice.
\<close>

theorem Close_handler_count:
  "Close (quiet_env 100) (OnClose (socket_at 100 [1]) (Some 7)) []
     = (OnClose (socket_at 100 [1]) (Some 7), [])
   \<and> (let p0 = (OnClose (socket_at 100 [1]) (Some 7))\<lparr>heartbeat := 0\<rparr>;
           (p1, tr1) = Close (quiet_env 100) p0 [];
           (p2, tr2) = Close (quiet_env 100) p1 tr1
       in tr2 = [TClose 1, CloseFired 7 [], TClose 1, CloseFired 7 []])"
  by (simp add: Close_def close_primary_def close_backup_def isHeartbeat_def OnClose_def
      socket_at_def attach_def setTransport_def newSocket_def quiet_env_def)

text \<open>
  C3. After \<open>Close\<close> on a socket created at clock 100 the tick is still 100, not 0; and
  on a socket whose tick is 0 the PING task sets the tick to the clock again.
\<close>

theorem heartbeat_after_Close:
  "heartbeat (fst (Close (quiet_env 150) (socket_at 100 [1]) [])) = 100
   \<and> heartbeat (fst (snd (run_task (quiet_env 150) (PongTask \<lparr>Type = PING, Data = [], Option = 0\<rparr>)
        ((socket_at 100 [1])\<lparr>heartbeat := 0\<rparr>) []))) = 150"
  by (simp add: Close_def isHeartbeat_def getTransport_def
      socket_at_def attach_def setTransport_def newSocket_def quiet_env_def)

section \<open>Inbound packets\<close>

text \<open>The PING task leaves a tick that is not 0 as it is.\<close>

lemma run_task_live_heartbeat:
  "heartbeat p \<noteq> 0 \<Longrightarrow> heartbeat (fst (snd (run_task e (PongTask packet) p tr))) = heartbeat p"
  by (simp add: isHeartbeat_def Let_def split: sum.splits)

text \<open>
  C8. A socket created at clock 100 accepts a PING with payload \<open>probe\<close> at clock 200:
  \<open>accept\<close> hands back the PING task, and the task writes the PONG with the same payload
  to the socket's transport but leaves the tick at 100.
\<close>

theorem ping_does_not_refresh:
  "accept (quiet_env 200) (socket_at 100 [1])
       \<lparr>Type = PING, Data = [112, 114, 111, 98, 101], Option = 0\<rparr> []
     = (None, socket_at 100 [1], [],
        [PongTask \<lparr>Type = PING, Data = [112, 114, 111, 98, 101], Option = 0\<rparr>])
   \<and> run_task (quiet_env 200)
        (PongTask \<lparr>Type = PING, Data = [112, 114, 111, 98, 101], Option = 0\<rparr>)
        (socket_at 100 [1]) []
     = (None, socket_at 100 [1],
        [TWrite 1 \<lparr>Type = PONG, Data = [112, 114, 111, 98, 101], Option = 0\<rparr>])
   \<and> heartbeat (socket_at 100 [1]) = 100"
  by (simp add: accept_def isHeartbeat_def getTransport_def NewPacketCustom_def
      PING_def CLOSE_def UPGRADE_def
      socket_at_def attach_def setTransport_def newSocket_def quiet_env_def)

text \<open>
  C9, as the code has it. When both transports are set and an UPGRADE packet comes in,
  \<open>accept\<close> calls \<open>upgradeEnd\<close> on the backup with the primary as argument, clears the
  backup and closes it; when that close reports no error every registered upgrade
  callback then fires, in registration order, and when it reports an error \<open>accept\<close>
  returns that error and no upgrade callback fires.
\<close>

theorem accept_UPGRADE:
  assumes "transportPrimary p = Some tPrimary"
    and "transportBackup p = Some tBackup"
    and "Type packet = UPGRADE"
  shows "accept e p packet tr =
     (case t_close e tBackup of
        None \<Rightarrow>
          (None, p\<lparr>transportBackup := None\<rparr>,
           tr @ [TUpgradeEnd tBackup tPrimary, TClose tBackup]
              @ map UpgradeFired (upgradeHandlers p), [])
      | Some err \<Rightarrow>
          (Some (ErrTransport err), p\<lparr>transportBackup := None\<rparr>,
           tr @ [TUpgradeEnd tBackup tPrimary, TClose tBackup], []))"
  using assms
  by (simp add: accept_def UPGRADE_def CLOSE_def Let_def split: option.splits)

theorem accept_UPGRADE_witness:
  "transportPrimary (OnUpgrade (socket_at 100 [1, 2]) (Some 7)) = Some 2
   \<and> transportBackup (OnUpgrade (socket_at 100 [1, 2]) (Some 7)) = Some 1
   \<and> Type \<lparr>Type = 5, Data = [], Option = 0\<rparr> = UPGRADE
   \<and> fst (snd (snd (accept (quiet_env 100) (OnUpgrade (socket_at 100 [1, 2]) (Some 7))
        \<lparr>Type = 5, Data = [], Option = 0\<rparr> [])))
     = [TUpgradeEnd 1 2, TClose 1, UpgradeFired 7]"
proof -
  have a: "transportPrimary (OnUpgrade (socket_at 100 [1, 2]) (Some 7)) = Some 2"
    and b: "transportBackup (OnUpgrade (socket_at 100 [1, 2]) (Some 7)) = Some 1"
    and h: "upgradeHandlers (OnUpgrade (socket_at 100 [1, 2]) (Some 7)) = [7]"
    by (simp_all add: OnUpgrade_def socket_at_def attach_def setTransport_def newSocket_def)
  have c: "Type \<lparr>Type = 5, Data = [], Option = 0\<rparr> = UPGRADE"
    by (simp add: UPGRADE_def)
  have q: "t_close (quiet_env 100) 1 = None"
    by (simp add: quiet_env_def)
  from accept_UPGRADE [OF a b c, of "quiet_env 100" "[]"] show ?thesis
    unfolding q h using a b c by simp
qed

text \<open>
  C9, as the claim has it, fails when closing the backup transport reports an error: the
  registered upgrade callback 7 is not called.
\<close>

theorem accept_UPGRADE_close_error:
  "accept (failing_env 100) (OnUpgrade (socket_at 100 [1, 2]) (Some 7))
       \<lparr>Type = UPGRADE, Data = [], Option = 0\<rparr> []
     = (Some (ErrTransport ''boom''),
        (OnUpgrade (socket_at 100 [1, 2]) (Some 7))\<lparr>transportBackup := None\<rparr>,
        [TUpgradeEnd 1 2, TClose 1], [])
   \<and> upgradeHandlers (OnUpgrade (socket_at 100 [1, 2]) (Some 7)) = [7]"
  by (simp add: accept_def UPGRADE_def CLOSE_def OnUpgrade_def failing_env_def
      socket_at_def attach_def setTransport_def newSocket_def quiet_env_def)

end
